theory Spec2Isabelle
  imports Main
begin

section \<open>Runtime model\<close>

text \<open>
  The program is Go. Its \<open>int\<close> values are modelled as unbounded integers, with the
  one wrap-around that a screen the program can build can reach written out: \<open>x - 1\<close>
  at the least 64-bit value (\<open>minus_one\<close>), which \<open>Columns - 1\<close> meets on the screen of
  no rows and \<open>-2^63\<close> columns. The other sums and differences are of indices and
  lengths of values held in memory; none leaves the 64-bit range except an index
  \<open>j + iter\<close> that is then also outside the slice it indexes, where the source panics
  and the model returns \<open>IndexOutOfRange\<close>.

  A run-time panic is a value: every function that can panic returns \<open>panic + 'a\<close>,
  and the state reached before the panic is dropped, as the panic ends the program.
\<close>

datatype panic =
    IndexOutOfRange
  | SliceBoundsOutOfRange
  | MakeSliceLenOutOfRange
  | NilPointerDereference

definition index_ok :: "int \<Rightarrow> 'a list \<Rightarrow> bool" where
  "index_ok i xs \<longleftrightarrow> 0 \<le> i \<and> i < int (length xs)"

definition minus_one :: "int \<Rightarrow> int" where
  "minus_one x = (if x = - (2 ^ 63) then 2 ^ 63 - 1 else x - 1)"

text \<open>
  \<open>make([]T, n)\<close>: a slice of \<open>n\<close> zero values. The run time panics with
  \<open>makeslice: len out of range\<close> when the length is negative, when the size in bytes
  (the element size times the length) overflows a machine word, and when it exceeds the
  allocation limit \<open>maxAlloc\<close>. The limit differs between platforms and is a
  parameter of every function that allocates; on most 64-bit platforms it is \<open>2^48\<close>.
  The element sizes are those of a 64-bit platform: a string header is 16 bytes and a
  slice header 24. An allocation that passes the three tests is taken to succeed.
\<close>

definition sizeof_string :: int where "sizeof_string = 16"
definition sizeof_slice :: int where "sizeof_slice = 24"

definition make_slice :: "int \<Rightarrow> int \<Rightarrow> int \<Rightarrow> 'a \<Rightarrow> panic + 'a list" where
  "make_slice maxAlloc elemsize n zero =
     (if n < 0 \<or> 2 ^ 64 \<le> elemsize * n \<or> maxAlloc < elemsize * n
      then Inl MakeSliceLenOutOfRange
      else Inr (replicate (nat n) zero))"

text \<open>\<open>rowArray[i] = row\<close> on a slice of slices.\<close>

definition set_row :: "'a list list \<Rightarrow> int \<Rightarrow> 'a list \<Rightarrow> panic + 'a list list" where
  "set_row ts i row = (if index_ok i ts then Inr (ts[nat i := row]) else Inl IndexOutOfRange)"

text \<open>\<open>s.Tiles[i][j]\<close> read and \<open>s.Tiles[i][j] = v\<close>, with both bounds checks.\<close>

definition get_tile :: "'a list list \<Rightarrow> int \<Rightarrow> int \<Rightarrow> panic + 'a" where
  "get_tile ts i j =
     (if \<not> index_ok i ts then Inl IndexOutOfRange
      else if \<not> index_ok j (ts ! nat i) then Inl IndexOutOfRange
      else Inr (ts ! nat i ! nat j))"

definition set_tile :: "'a list list \<Rightarrow> int \<Rightarrow> int \<Rightarrow> 'a \<Rightarrow> panic + 'a list list" where
  "set_tile ts i j v =
     (if \<not> index_ok i ts then Inl IndexOutOfRange
      else if \<not> index_ok j (ts ! nat i) then Inl IndexOutOfRange
      else Inr (ts[nat i := (ts ! nat i)[nat j := v]]))"

text \<open>\<open>text[0:hi]\<close> on a string: the bound must lie in \<open>0..len(text)\<close>.\<close>

definition slice_to :: "string \<Rightarrow> int \<Rightarrow> panic + string" where
  "slice_to txt hi =
     (if hi < 0 \<or> int (length txt) < hi then Inl SliceBoundsOutOfRange
      else Inr (take (nat hi) txt))"

text \<open>
  \<open>string(text[iter])\<close>: the byte is read as a code point and encoded in UTF-8, so a
  byte below 128 is itself and any other byte becomes two bytes.
\<close>

definition string_of_byte :: "char \<Rightarrow> string" where
  "string_of_byte c =
     (if (of_char c :: nat) < 128 then [c]
      else [char_of (192 + (of_char c :: nat) div 64), char_of (128 + (of_char c :: nat) mod 64)])"

section \<open>Constants of the package\<close>

definition ESC :: char where "ESC = CHR 0x1B"
definition CR :: char where "CR = CHR 0x0D"
definition LF :: char where "LF = CHR 0x0A"

definition clearScreen :: string where
  "clearScreen = ESC # ''[H'' @ ESC # ''[2J''"

definition hideCursor :: string where
  "hideCursor = ESC # ''[?25l''"

text \<open>The box glyphs, as the UTF-8 bytes of the source literals.\<close>

definition verticalWall :: string where "verticalWall = [CHR 0xE2, CHR 0x95, CHR 0x91]"
definition horizontalWall :: string where "horizontalWall = [CHR 0xE2, CHR 0x95, CHR 0x90]"
definition topLeft :: string where "topLeft = [CHR 0xE2, CHR 0x95, CHR 0x94]"
definition topRight :: string where "topRight = [CHR 0xE2, CHR 0x95, CHR 0x97]"
definition bottomRight :: string where "bottomRight = [CHR 0xE2, CHR 0x95, CHR 0x9D]"
definition bottomLeft :: string where "bottomLeft = [CHR 0xE2, CHR 0x95, CHR 0x9A]"

definition empty_tile :: string where "empty_tile = '' ''"

definition CRLF :: string where "CRLF = [CR, LF]"

subsection \<open>The colour library\<close>

text \<open>
  \<open>color.New(attrs...).Sprintf("%s", x)\<close> belongs to an external library whose output
  depends on whether colours are enabled at run time. The functions below take it as the
  parameter \<open>spr\<close>, and every general statement holds for every such function.
  \<open>ansi\<close> is one possible output with colours enabled (the attributes as one SGR
  sequence, the text, a full reset; other versions of the library reset differently); it
  is used only to run the model on concrete inputs.
\<close>

datatype Attribute = FgCyan | FgHiRed | FgHiYellow | BgBlack

type_synonym sprintf = "Attribute list \<Rightarrow> string \<Rightarrow> string"

fun sgr_code :: "Attribute \<Rightarrow> string" where
  "sgr_code FgCyan = ''36''"
| "sgr_code FgHiRed = ''91''"
| "sgr_code FgHiYellow = ''93''"
| "sgr_code BgBlack = ''40''"

fun sgr_join :: "Attribute list \<Rightarrow> string" where
  "sgr_join [] = []"
| "sgr_join [a] = sgr_code a"
| "sgr_join (a # b # as) = sgr_code a @ '';'' @ sgr_join (b # as)"

definition ansi :: sprintf where
  "ansi attrs x = ESC # ''['' @ sgr_join attrs @ ''m'' @ x @ ESC # ''[0m''"

section \<open>PlayerScreen\<close>

record PlayerScreen =
  Columns :: int
  Rows :: int
  Tiles :: "string list list"

text \<open>
  A screen is well formed when its \<open>Tiles\<close> have the shape its two size fields announce.
  Every screen the program builds comes from \<open>NewPlayerScreen\<close> and has this shape.
\<close>

definition shape :: "'a list list \<Rightarrow> int \<Rightarrow> int \<Rightarrow> bool" where
  "shape ts r c \<longleftrightarrow> int (length ts) = r \<and> list_all (\<lambda>row. int (length row) = c) ts"

definition wf_screen :: "PlayerScreen \<Rightarrow> bool" where
  "wf_screen s \<longleftrightarrow> shape (Tiles s) (Rows s) (Columns s)"

definition cell :: "'a list list \<Rightarrow> int \<Rightarrow> int \<Rightarrow> 'a" where
  "cell ts r c = ts ! nat r ! nat c"

subsection \<open>NewPlayerScreen\<close>

function NewPlayerScreen_cols :: "string list list \<Rightarrow> int \<Rightarrow> int \<Rightarrow> int \<Rightarrow> panic + string list list" where
  "NewPlayerScreen_cols rowArray i j columns =
     (if j < columns then
        (case set_tile rowArray i j empty_tile of
           Inl e \<Rightarrow> Inl e
         | Inr rowArray' \<Rightarrow> NewPlayerScreen_cols rowArray' i (j + 1) columns)
      else Inr rowArray)"
  by pat_completeness auto
termination
  by (relation "measure (\<lambda>(rowArray, i, j, columns). nat (columns - j))") auto

function NewPlayerScreen_rows ::
  "int \<Rightarrow> string list list \<Rightarrow> int \<Rightarrow> int \<Rightarrow> int \<Rightarrow> panic + string list list" where
  "NewPlayerScreen_rows maxAlloc rowArray i rows columns =
     (if i < rows then
        (case make_slice maxAlloc sizeof_string columns [] of
           Inl e \<Rightarrow> Inl e
         | Inr row \<Rightarrow>
            (case set_row rowArray i row of
               Inl e \<Rightarrow> Inl e
             | Inr rowArray1 \<Rightarrow>
                (case NewPlayerScreen_cols rowArray1 i 0 columns of
                   Inl e \<Rightarrow> Inl e
                 | Inr rowArray2 \<Rightarrow> NewPlayerScreen_rows maxAlloc rowArray2 (i + 1) rows columns)))
      else Inr rowArray)"
  by pat_completeness auto
termination
  by (relation "measure (\<lambda>(maxAlloc, rowArray, i, rows, columns). nat (rows - i))") auto

definition NewPlayerScreen :: "int \<Rightarrow> int \<Rightarrow> int \<Rightarrow> panic + PlayerScreen" where
  "NewPlayerScreen maxAlloc rows columns =
     (case make_slice maxAlloc sizeof_slice rows [] of
        Inl e \<Rightarrow> Inl e
      | Inr rowArray \<Rightarrow>
         (case NewPlayerScreen_rows maxAlloc rowArray 0 rows columns of
            Inl e \<Rightarrow> Inl e
          | Inr rowArray' \<Rightarrow> Inr \<lparr>Columns = columns, Rows = rows, Tiles = rowArray'\<rparr>))"

subsection \<open>Render\<close>

function Render_cols :: "PlayerScreen \<Rightarrow> int \<Rightarrow> int \<Rightarrow> string \<Rightarrow> panic + string" where
  "Render_cols s i j buff =
     (if j < Columns s then
        (case get_tile (Tiles s) i j of
           Inl e \<Rightarrow> Inl e
         | Inr t \<Rightarrow> Render_cols s i (j + 1) (buff @ t))
      else Inr buff)"
  by pat_completeness auto
termination
  by (relation "measure (\<lambda>(s, i, j, buff). nat (Columns s - j))") auto

function Render_rows :: "PlayerScreen \<Rightarrow> int \<Rightarrow> string \<Rightarrow> panic + string" where
  "Render_rows s i buff =
     (if i < Rows s then
        (case Render_cols s i 0 buff of
           Inl e \<Rightarrow> Inl e
         | Inr buff' \<Rightarrow> Render_rows s (i + 1) (buff' @ CRLF))
      else Inr buff)"
  by pat_completeness auto
termination
  by (relation "measure (\<lambda>(s, i, buff). nat (Rows s - i))") auto

definition Render :: "PlayerScreen \<Rightarrow> panic + string" where
  "Render s = Render_rows s 0 []"

subsection \<open>DrawRect\<close>

function DrawRect_horizontal ::
  "string list list \<Rightarrow> int \<Rightarrow> int \<Rightarrow> int \<Rightarrow> int \<Rightarrow> string \<Rightarrow> panic + string list list" where
  "DrawRect_horizontal ts j bottomRightX topLeftY bottomRightY horizontalString =
     (if j < bottomRightX then
        (case set_tile ts topLeftY j horizontalString of
           Inl e \<Rightarrow> Inl e
         | Inr ts1 \<Rightarrow>
            (case set_tile ts1 bottomRightY j horizontalString of
               Inl e \<Rightarrow> Inl e
             | Inr ts2 \<Rightarrow>
                DrawRect_horizontal ts2 (j + 1) bottomRightX topLeftY bottomRightY horizontalString))
      else Inr ts)"
  by pat_completeness auto
termination
  by (relation "measure (\<lambda>(ts, j, bottomRightX, topLeftY, bottomRightY, h). nat (bottomRightX - j))") auto

function DrawRect_vertical ::
  "string list list \<Rightarrow> int \<Rightarrow> int \<Rightarrow> int \<Rightarrow> int \<Rightarrow> string \<Rightarrow> panic + string list list" where
  "DrawRect_vertical ts i bottomRightY topLeftX bottomRightX verticalString =
     (if i < bottomRightY then
        (case set_tile ts i topLeftX verticalString of
           Inl e \<Rightarrow> Inl e
         | Inr ts1 \<Rightarrow>
            (case set_tile ts1 i bottomRightX verticalString of
               Inl e \<Rightarrow> Inl e
             | Inr ts2 \<Rightarrow>
                DrawRect_vertical ts2 (i + 1) bottomRightY topLeftX bottomRightX verticalString))
      else Inr ts)"
  by pat_completeness auto
termination
  by (relation "measure (\<lambda>(ts, i, bottomRightY, topLeftX, bottomRightX, v). nat (bottomRightY - i))") auto

definition DrawRect_corners ::
  "sprintf \<Rightarrow> string list list \<Rightarrow> int \<Rightarrow> int \<Rightarrow> int \<Rightarrow> int \<Rightarrow> Attribute \<Rightarrow> panic + string list list" where
  "DrawRect_corners spr ts topLeftX topLeftY bottomRightX bottomRightY fg =
     (case set_tile ts topLeftY topLeftX (spr [fg] topLeft) of
        Inl e \<Rightarrow> Inl e
      | Inr ts1 \<Rightarrow>
     (case set_tile ts1 topLeftY bottomRightX (spr [fg] topRight) of
        Inl e \<Rightarrow> Inl e
      | Inr ts2 \<Rightarrow>
     (case set_tile ts2 bottomRightY bottomRightX (spr [fg] bottomRight) of
        Inl e \<Rightarrow> Inl e
      | Inr ts3 \<Rightarrow> set_tile ts3 bottomRightY topLeftX (spr [fg] bottomLeft))))"

definition DrawRect ::
  "sprintf \<Rightarrow> PlayerScreen \<Rightarrow> int \<Rightarrow> int \<Rightarrow> int \<Rightarrow> int \<Rightarrow> Attribute \<Rightarrow> panic + PlayerScreen" where
  "DrawRect spr s topLeftX topLeftY bottomRightX bottomRightY fg =
     (if topLeftX > minus_one (Columns s) \<or> topLeftX < 0 then Inr s
      else if bottomRightX > minus_one (Columns s) \<or> bottomRightX < 0 then Inr s
      else if topLeftY > minus_one (Rows s) \<or> topLeftY < 0 then Inr s
      else if bottomRightY > minus_one (Rows s) \<or> bottomRightY < 0 then Inr s
      else
        (case DrawRect_horizontal (Tiles s) topLeftX bottomRightX topLeftY bottomRightY
                (spr [fg] horizontalWall) of
           Inl e \<Rightarrow> Inl e
         | Inr ts1 \<Rightarrow>
        (case DrawRect_vertical ts1 topLeftY bottomRightY topLeftX bottomRightX
                (spr [fg] verticalWall) of
           Inl e \<Rightarrow> Inl e
         | Inr ts2 \<Rightarrow>
        (case DrawRect_corners spr ts2 topLeftX topLeftY bottomRightX bottomRightY fg of
           Inl e \<Rightarrow> Inl e
         | Inr ts3 \<Rightarrow> Inr (s\<lparr>Tiles := ts3\<rparr>)))))"

subsection \<open>SetText\<close>

function SetText_loop ::
  "sprintf \<Rightarrow> string list list \<Rightarrow> string \<Rightarrow> int \<Rightarrow> int \<Rightarrow> int \<Rightarrow> Attribute \<Rightarrow> Attribute
     \<Rightarrow> panic + string list list" where
  "SetText_loop spr ts txt i j iter fg bg =
     (if iter < int (length txt) then
        (case set_tile ts i (j + iter) (spr [fg, bg] (string_of_byte (txt ! nat iter))) of
           Inl e \<Rightarrow> Inl e
         | Inr ts' \<Rightarrow> SetText_loop spr ts' txt i j (iter + 1) fg bg)
      else Inr ts)"
  by pat_completeness auto
termination
  by (relation "measure (\<lambda>(spr, ts, txt, i, j, iter, fg, bg). nat (int (length txt) - iter))") auto

definition SetText ::
  "sprintf \<Rightarrow> PlayerScreen \<Rightarrow> string \<Rightarrow> int \<Rightarrow> int \<Rightarrow> Attribute \<Rightarrow> Attribute \<Rightarrow> panic + PlayerScreen" where
  "SetText spr s txt i j fg bg =
     (if i > minus_one (Rows s) then Inr s
      else
        (case (if i + int (length txt) > minus_one (Columns s)
               then slice_to txt (int (length txt) - Columns s)
               else Inr txt) of
           Inl e \<Rightarrow> Inl e
         | Inr txt' \<Rightarrow>
            (case SetText_loop spr (Tiles s) txt' i j 0 fg bg of
               Inl e \<Rightarrow> Inl e
             | Inr ts \<Rightarrow> Inr (s\<lparr>Tiles := ts\<rparr>))))"

subsection \<open>Compute\<close>

text \<open>
  The quiz is reached through a pointer: \<open>None\<close> is \<open>nil\<close>, and reading
  \<open>quizz.Title\<close> through it panics. The first rectangle is drawn before that read.
  A pointer is an address into a store of objects; Go has no dangling pointers, and an
  address the store does not hold is treated like \<open>nil\<close>.
\<close>

record Question =
  Timeout :: int
  Content :: string
  Answers :: "string \<rightharpoonup> string"
  ValidAnswer :: string

record Quizz =
  Title :: string
  Difficulty :: int
  Questions :: "Question list"
  questionIndex :: int

type_synonym ptr = "nat option"

definition deref :: "(nat \<rightharpoonup> 'a) \<Rightarrow> ptr \<Rightarrow> panic + 'a" where
  "deref objs p =
     (case p of
        None \<Rightarrow> Inl NilPointerDereference
      | Some a \<Rightarrow> (case objs a of None \<Rightarrow> Inl NilPointerDereference | Some x \<Rightarrow> Inr x))"

definition Compute ::
  "sprintf \<Rightarrow> (nat \<rightharpoonup> Quizz) \<Rightarrow> PlayerScreen \<Rightarrow> ptr \<Rightarrow> panic + PlayerScreen" where
  "Compute spr qs s quizz =
     (case DrawRect spr s 0 0 55 (minus_one (Rows s)) FgCyan of
        Inl e \<Rightarrow> Inl e
      | Inr s1 \<Rightarrow>
     (case deref qs quizz of
        Inl e \<Rightarrow> Inl e
      | Inr q \<Rightarrow>
     (case SetText spr s1 (Title q) 2 2 FgHiRed BgBlack of
        Inl e \<Rightarrow> Inl e
      | Inr s2 \<Rightarrow>
          DrawRect spr s2 56 0 (minus_one (Columns s2)) (minus_one (Rows s2)) FgHiYellow)))"

section \<open>PlayerSession\<close>

text \<open>
  The output sink is an \<open>ssh.Channel\<close> of an external library. It is modelled at its
  interface: a write either fails and delivers nothing, or delivers the whole buffer. A
  sink that is \<open>broken\<close> fails every write. \<open>io.Copy\<close> from a byte buffer is one write of
  the buffer's content, and none when the buffer is empty.
\<close>

record Channel =
  broken :: bool
  received :: "string list"

datatype write_error = WriteFailed

definition Channel_Write :: "Channel \<Rightarrow> string \<Rightarrow> Channel \<times> write_error option" where
  "Channel_Write ch p =
     (if broken ch then (ch, Some WriteFailed)
      else (ch\<lparr>received := received ch @ [p]\<rparr>, None))"

definition io_Copy :: "Channel \<Rightarrow> string \<Rightarrow> Channel \<times> write_error option" where
  "io_Copy dst buffer = (if buffer = [] then (dst, None) else Channel_Write dst buffer)"

text \<open>
  The mutex of a session is not modelled: every function below is one critical section.
  The screen of a session is built by \<open>NewPlayerScreen\<close> for that session alone and is
  never shared, so it is a field of the session value.
\<close>

record PlayerSession =
  channel :: Channel
  name :: string
  answers :: "string \<rightharpoonup> string"
  screen :: PlayerScreen

text \<open>
  Sessions and quizzes are shared through pointers (the registry holds
  \<open>*PlayerSession\<close>, the server and every \<open>Update\<close> hold \<open>*Quizz\<close>), so they live in a
  store and the functions that mutate them return the store.
\<close>

record heap =
  quizzes :: "nat \<rightharpoonup> Quizz"
  sessions :: "nat \<rightharpoonup> PlayerSession"

definition NewPlayerSession ::
  "int \<Rightarrow> Channel \<Rightarrow> string \<Rightarrow> int \<Rightarrow> int \<Rightarrow> panic + PlayerSession" where
  "NewPlayerSession maxAlloc ch nm rows columns =
     (case NewPlayerScreen maxAlloc rows columns of
        Inl e \<Rightarrow> Inl e
      | Inr scr \<Rightarrow> Inr \<lparr>channel = ch, name = nm, answers = Map.empty, screen = scr\<rparr>)"

definition put_session :: "heap \<Rightarrow> ptr \<Rightarrow> PlayerSession \<Rightarrow> heap" where
  "put_session h p s = (case p of None \<Rightarrow> h | Some a \<Rightarrow> h\<lparr>sessions := (sessions h)(a \<mapsto> s)\<rparr>)"

definition UpdateWindows :: "int \<Rightarrow> ptr \<Rightarrow> int \<Rightarrow> int \<Rightarrow> heap \<Rightarrow> panic + heap" where
  "UpdateWindows maxAlloc sp rows columns h =
     (case deref (sessions h) sp of
        Inl e \<Rightarrow> Inl e
      | Inr s \<Rightarrow>
     (case NewPlayerScreen maxAlloc rows columns of
        Inl e \<Rightarrow> Inl e
      | Inr scr \<Rightarrow>
     (case Render scr of
        Inl e \<Rightarrow> Inl e
      | Inr unused \<Rightarrow> Inr (put_session h sp (s\<lparr>screen := scr\<rparr>)))))"

definition PlayerSession_Update :: "sprintf \<Rightarrow> ptr \<Rightarrow> ptr \<Rightarrow> heap \<Rightarrow> panic + heap" where
  "PlayerSession_Update spr sp quizz h =
     (case deref (sessions h) sp of
        Inl e \<Rightarrow> Inl e
      | Inr s \<Rightarrow>
     (case Compute spr (quizzes h) (screen s) quizz of
        Inl e \<Rightarrow> Inl e
      | Inr scr \<Rightarrow>
     (case Render scr of
        Inl e \<Rightarrow> Inl e
      | Inr frame \<Rightarrow>
         (let buffer = clearScreen @ frame @ hideCursor;
              (ch, err) = io_Copy (channel s) buffer
          in Inr (put_session h sp (s\<lparr>channel := ch, screen := scr\<rparr>))))))"

section \<open>QuizzServer\<close>

text \<open>
  The registry is a Go map from user name to session pointer. It is an association list
  with distinct keys; a \<open>range\<close> over the map visits the entries in an unspecified order,
  which is the order of the list, so a statement about every list covers every order.
  The \<open>delta\<close> argument of \<open>Update\<close> is never read and is left out.
\<close>

record QuizzServer =
  currentQuizz :: ptr
  Sessions :: "(string \<times> ptr) list"

fun Update_range :: "sprintf \<Rightarrow> (string \<times> ptr) list \<Rightarrow> ptr \<Rightarrow> heap \<Rightarrow> panic + heap" where
  "Update_range spr [] quizz h = Inr h"
| "Update_range spr ((username, session) # rest) quizz h =
     (case PlayerSession_Update spr session quizz h of
        Inl e \<Rightarrow> Inl e
      | Inr h' \<Rightarrow> Update_range spr rest quizz h')"

definition QuizzServer_Update :: "sprintf \<Rightarrow> QuizzServer \<Rightarrow> heap \<Rightarrow> panic + QuizzServer \<times> heap" where
  "QuizzServer_Update spr q h =
     (case Update_range spr (Sessions q) (currentQuizz q) h of
        Inl e \<Rightarrow> Inl e
      | Inr h' \<Rightarrow> Inr (q, h'))"

definition UpdateWindowSize ::
  "int \<Rightarrow> QuizzServer \<Rightarrow> string \<Rightarrow> int \<Rightarrow> int \<Rightarrow> heap \<Rightarrow> panic + QuizzServer \<times> heap" where
  "UpdateWindowSize maxAlloc q username rows columns h =
     (case map_of (Sessions q) username of
        None \<Rightarrow> Inr (q, h)
      | Some session \<Rightarrow>
         (case UpdateWindows maxAlloc session rows columns h of
            Inl e \<Rightarrow> Inl e
          | Inr h' \<Rightarrow> Inr (q, h')))"

section \<open>Notions used in the statements\<close>

text \<open>
  \<open>frame_of\<close> is the text of a grid of tiles: every row's tiles in order, each row
  followed by a carriage return and a line feed. \<open>put_cell\<close> is one in-range store,
  and \<open>inside r c i j\<close> says that row \<open>i\<close>, column \<open>j\<close> is a cell of an
  \<open>r\<close> by \<open>c\<close> grid.
\<close>

definition frame_of :: "string list list \<Rightarrow> string" where
  "frame_of ts = concat (map (\<lambda>row. concat row @ CRLF) ts)"

definition put_cell :: "'a list list \<Rightarrow> int \<Rightarrow> int \<Rightarrow> 'a \<Rightarrow> 'a list list" where
  "put_cell ts i j v = ts[nat i := (ts ! nat i)[nat j := v]]"

definition inside :: "int \<Rightarrow> int \<Rightarrow> int \<Rightarrow> int \<Rightarrow> bool" where
  "inside r c i j \<longleftrightarrow> 0 \<le> i \<and> i < r \<and> 0 \<le> j \<and> j < c"

text \<open>
  The specification's wording of the serialised frame, for comparison with \<open>Render\<close>:
  lines \<^emph>\<open>separated\<close> by carriage-return/line-feed pairs, that is, joined with the pair
  between consecutive lines.
\<close>

fun spec_join_CRLF :: "string list \<Rightarrow> string" where
  "spec_join_CRLF [] = []"
| "spec_join_CRLF [l] = l"
| "spec_join_CRLF (l # m # ls) = l @ CRLF @ spec_join_CRLF (m # ls)"

subsection \<open>Concrete states\<close>

text \<open>
  The allocation limit of most 64-bit platforms, the quiz that \<open>main\<close> installs, a
  small screen that already holds content, and a registry of two players, the first of
  which has a sink that fails every write.
\<close>

definition maxAlloc48 :: int where
  "maxAlloc48 = 2 ^ 48"

definition title_quizz :: Quizz where
  "title_quizz = \<lparr>Title = ''Some Core Data'', Difficulty = 100, Questions = [], questionIndex = 0\<rparr>"

definition used_screen :: PlayerScreen where
  "used_screen = \<lparr>Columns = 2, Rows = 2, Tiles = [[''a'', ''b''], [''c'', ''d'']]\<rparr>"

definition sink :: "bool \<Rightarrow> Channel" where
  "sink b = \<lparr>broken = b, received = []\<rparr>"

definition player :: "bool \<Rightarrow> string \<Rightarrow> PlayerSession" where
  "player b nm = \<lparr>channel = sink b, name = nm, answers = Map.empty, screen = used_screen\<rparr>"

definition blank_3_4 :: PlayerScreen where
  "blank_3_4 = \<lparr>Columns = 4, Rows = 3, Tiles = replicate 3 (replicate 4 empty_tile)\<rparr>"

definition blank_3_3 :: PlayerScreen where
  "blank_3_3 = \<lparr>Columns = 3, Rows = 3, Tiles = replicate 3 (replicate 3 empty_tile)\<rparr>"

definition two_players :: heap where
  "two_players =
     \<lparr>quizzes = [0 \<mapsto> title_quizz],
      sessions = [0 \<mapsto> player True ''a'', 1 \<mapsto> player False ''b'']\<rparr>"

definition two_player_server :: QuizzServer where
  "two_player_server = \<lparr>currentQuizz = Some 0, Sessions = [(''a'', Some 0), (''b'', Some 1)]\<rparr>"

section \<open>Loops and stores\<close>

declare NewPlayerScreen_cols.simps [simp del] NewPlayerScreen_rows.simps [simp del]
  Render_cols.simps [simp del] Render_rows.simps [simp del]
  DrawRect_horizontal.simps [simp del] DrawRect_vertical.simps [simp del]
  SetText_loop.simps [simp del]

lemma shape_nth:
  "shape ts r c \<longleftrightarrow> int (length ts) = r \<and> (\<forall>k < length ts. int (length (ts ! k)) = c)"
  by (simp add: shape_def list_all_length)

lemma take_Suc_update:
  "n < length xs \<Longrightarrow> take (Suc n) (xs[n := v]) = take n xs @ [v]"
  by (simp add: take_Suc_conv_app_nth)

lemma NewPlayerScreen_cols_result:
  assumes "index_ok i ts" and "int (length (ts ! nat i)) = columns" and "0 \<le> j"
  shows "NewPlayerScreen_cols ts i j columns =
           Inr (ts[nat i := take (nat j) (ts ! nat i) @ replicate (nat columns - nat j) empty_tile])"
  using assms
proof (induction ts i j columns rule: NewPlayerScreen_cols.induct)
  case (1 rowArray i j columns)
  let ?row = "rowArray ! nat i"
  show ?case
  proof (cases "j < columns")
    case False
    with "1.prems" have "take (nat j) ?row = ?row" and "nat columns - nat j = 0"
      by auto
    with False show ?thesis
      by (simp add: NewPlayerScreen_cols.simps [of rowArray i j columns])
  next
    case True
    let ?ts1 = "rowArray[nat i := ?row[nat j := empty_tile]]"
    from True "1.prems" have j: "nat j < length ?row" by auto
    from "1.prems" have i: "nat i < length rowArray" by (auto simp: index_ok_def)
    from True "1.prems" have st: "set_tile rowArray i j empty_tile = Inr ?ts1"
      by (auto simp: set_tile_def index_ok_def)
    have "NewPlayerScreen_cols ?ts1 i (j + 1) columns =
            Inr (?ts1[nat i := take (nat (j + 1)) (?ts1 ! nat i)
                   @ replicate (nat columns - nat (j + 1)) empty_tile])"
      using "1.IH" [OF True st] "1.prems" i by (simp add: index_ok_def)
    moreover have "nat (j + 1) = Suc (nat j)" using "1.prems" by simp
    moreover have "take (Suc (nat j)) (?ts1 ! nat i) = take (nat j) ?row @ [empty_tile]"
      using i j by (simp add: take_Suc_update)
    moreover have "nat columns - nat j = Suc (nat columns - Suc (nat j))"
      using True "1.prems" by simp
    ultimately show ?thesis
      using True st
      by (simp add: NewPlayerScreen_cols.simps [of rowArray i j columns] replicate_app_Cons_same)
  qed
qed

lemma make_slice_accepts:
  assumes "0 \<le> n" and "elemsize * n \<le> maxAlloc" and "maxAlloc < 2 ^ 64"
  shows "make_slice maxAlloc elemsize n zero = Inr (replicate (nat n) zero)"
  using assms by (simp add: make_slice_def)

lemma NewPlayerScreen_rows_result:
  assumes "int (length ts) = rows" and "0 \<le> i" and "0 \<le> columns"
    and "sizeof_string * columns \<le> maxAlloc" and "maxAlloc < 2 ^ 64"
  shows "NewPlayerScreen_rows maxAlloc ts i rows columns =
           Inr (take (nat i) ts @ replicate (nat rows - nat i) (replicate (nat columns) empty_tile))"
  using assms
proof (induction maxAlloc ts i rows columns rule: NewPlayerScreen_rows.induct)
  case (1 maxAlloc rowArray i rows columns)
  show ?case
  proof (cases "i < rows")
    case False
    with "1.prems" show ?thesis
      by (simp add: NewPlayerScreen_rows.simps [of maxAlloc rowArray i rows columns])
  next
    case True
    let ?full = "replicate (nat columns) empty_tile"
    let ?row = "replicate (nat columns) ([] :: string)"
    let ?ts1 = "rowArray[nat i := ?row]"
    let ?ts2 = "rowArray[nat i := ?full]"
    from True "1.prems" have i: "nat i < length rowArray" by auto
    have mk: "make_slice maxAlloc sizeof_string columns ([] :: string) = Inr ?row"
      using "1.prems"(3,4,5) by (rule make_slice_accepts)
    have sr: "set_row rowArray i ?row = Inr ?ts1"
      using True "1.prems" by (simp add: set_row_def index_ok_def)
    have "NewPlayerScreen_cols ?ts1 i 0 columns =
            Inr (?ts1[nat i := take (nat 0) (?ts1 ! nat i) @ replicate (nat columns - nat 0) empty_tile])"
      by (rule NewPlayerScreen_cols_result) (use True "1.prems" i in \<open>auto simp: index_ok_def\<close>)
    then have cl: "NewPlayerScreen_cols ?ts1 i 0 columns = Inr ?ts2"
      by simp
    have "NewPlayerScreen_rows maxAlloc ?ts2 (i + 1) rows columns =
            Inr (take (nat (i + 1)) ?ts2 @ replicate (nat rows - nat (i + 1)) ?full)"
      using "1.IH" [OF True mk sr cl] "1.prems" by simp
    moreover have "nat (i + 1) = Suc (nat i)" using "1.prems" by simp
    moreover have "take (Suc (nat i)) ?ts2 = take (nat i) rowArray @ [?full]"
      using i by (simp add: take_Suc_update)
    moreover have "nat rows - nat i = Suc (nat rows - Suc (nat i))"
      using True "1.prems" by simp
    ultimately show ?thesis
      using True mk sr cl
      by (simp add: NewPlayerScreen_rows.simps [of maxAlloc rowArray i rows columns])
  qed
qed

lemma NewPlayerScreen_result:
  assumes "0 \<le> rows" and "0 \<le> columns"
    and "sizeof_slice * rows \<le> maxAlloc" and "sizeof_string * columns \<le> maxAlloc"
    and "maxAlloc < 2 ^ 64"
  shows "NewPlayerScreen maxAlloc rows columns =
           Inr \<lparr>Columns = columns, Rows = rows, Tiles = replicate (nat rows) (replicate (nat columns) empty_tile)\<rparr>"
proof -
  have mk: "make_slice maxAlloc sizeof_slice rows ([] :: string list) = Inr (replicate (nat rows) [])"
    using assms(1,3,5) by (rule make_slice_accepts)
  have "NewPlayerScreen_rows maxAlloc (replicate (nat rows) []) 0 rows columns =
          Inr (take (nat 0) (replicate (nat rows) []) @
                 replicate (nat rows - nat 0) (replicate (nat columns) empty_tile))"
    by (rule NewPlayerScreen_rows_result) (use assms in auto)
  with mk show ?thesis
    by (simp add: NewPlayerScreen_def)
qed

lemma wf_Rows: "wf_screen s \<Longrightarrow> 0 \<le> Rows s"
  by (auto simp: wf_screen_def shape_def)

lemma wf_Columns: "wf_screen s \<Longrightarrow> 0 < Rows s \<Longrightarrow> 0 \<le> Columns s"
  by (cases "Tiles s") (auto simp: wf_screen_def shape_def)

lemma minus_one_Rows: "wf_screen s \<Longrightarrow> minus_one (Rows s) = Rows s - 1"
  using wf_Rows [of s] by (simp add: minus_one_def)

lemma minus_one_Columns: "wf_screen s \<Longrightarrow> 0 < Rows s \<Longrightarrow> minus_one (Columns s) = Columns s - 1"
  using wf_Columns [of s] by (simp add: minus_one_def)

lemma Render_cols_result:
  assumes "index_ok i (Tiles s)" and "int (length (Tiles s ! nat i)) = Columns s" and "0 \<le> j"
  shows "Render_cols s i j buff = Inr (buff @ concat (drop (nat j) (Tiles s ! nat i)))"
  using assms
proof (induction s i j buff rule: Render_cols.induct)
  case (1 s i j buff)
  let ?row = "Tiles s ! nat i"
  show ?case
  proof (cases "j < Columns s")
    case False
    with "1.prems" show ?thesis
      by (simp add: Render_cols.simps [of s i j buff])
  next
    case True
    with "1.prems" have j: "nat j < length ?row" by auto
    from True "1.prems" have gt: "get_tile (Tiles s) i j = Inr (?row ! nat j)"
      by (auto simp: get_tile_def index_ok_def)
    have "Render_cols s i (j + 1) (buff @ ?row ! nat j) =
            Inr ((buff @ ?row ! nat j) @ concat (drop (nat (j + 1)) ?row))"
      using "1.IH" [OF True gt] "1.prems" by simp
    moreover have "nat (j + 1) = Suc (nat j)" using "1.prems" by simp
    moreover have "drop (nat j) ?row = ?row ! nat j # drop (Suc (nat j)) ?row"
      using j by (simp add: Cons_nth_drop_Suc)
    ultimately show ?thesis
      using True gt by (simp add: Render_cols.simps [of s i j buff])
  qed
qed

lemma Render_rows_result:
  assumes "wf_screen s" and "0 \<le> i"
  shows "Render_rows s i buff = Inr (buff @ frame_of (drop (nat i) (Tiles s)))"
  using assms
proof (induction s i buff rule: Render_rows.induct)
  case (1 s i buff)
  from "1.prems" have len: "int (length (Tiles s)) = Rows s"
    and rows: "\<forall>k < length (Tiles s). int (length (Tiles s ! k)) = Columns s"
    by (simp_all add: wf_screen_def shape_nth)
  show ?case
  proof (cases "i < Rows s")
    case False
    with "1.prems" len show ?thesis
      by (simp add: Render_rows.simps [of s i buff] frame_of_def)
  next
    case True
    let ?row = "Tiles s ! nat i"
    from True "1.prems" len have i: "nat i < length (Tiles s)" by auto
    have "Render_cols s i 0 buff = Inr (buff @ concat (drop (nat 0) ?row))"
      by (rule Render_cols_result) (use i rows "1.prems" in \<open>auto simp: index_ok_def\<close>)
    then have rc: "Render_cols s i 0 buff = Inr (buff @ concat ?row)"
      by simp
    have "Render_rows s (i + 1) ((buff @ concat ?row) @ CRLF) =
            Inr (((buff @ concat ?row) @ CRLF) @ frame_of (drop (nat (i + 1)) (Tiles s)))"
      using "1.IH" [OF True rc] "1.prems" by simp
    moreover have "nat (i + 1) = Suc (nat i)" using "1.prems" by simp
    moreover have "drop (nat i) (Tiles s) = ?row # drop (Suc (nat i)) (Tiles s)"
      using i by (simp add: Cons_nth_drop_Suc)
    ultimately show ?thesis
      using True rc by (simp add: Render_rows.simps [of s i buff] frame_of_def)
  qed
qed

lemma Render_result:
  "wf_screen s \<Longrightarrow> Render s = Inr (frame_of (Tiles s))"
  using Render_rows_result [of s 0 "[]"] by (simp add: Render_def)

lemma concat_replicate_empty_tile:
  "concat (replicate n empty_tile) = replicate n CHR '' ''"
  by (induction n) (simp_all add: empty_tile_def)

lemma frame_of_blank:
  "frame_of (replicate r (replicate c empty_tile)) = concat (replicate r (replicate c CHR '' '' @ CRLF))"
  by (simp add: frame_of_def concat_replicate_empty_tile map_replicate)

lemma wf_blank:
  "0 \<le> rows \<Longrightarrow> 0 \<le> columns \<Longrightarrow>
     wf_screen \<lparr>Columns = columns, Rows = rows, Tiles = replicate (nat rows) (replicate (nat columns) empty_tile)\<rparr>"
  by (simp add: wf_screen_def shape_nth)

lemma Render_blank:
  assumes "0 \<le> rows" and "0 \<le> columns"
  shows "Render \<lparr>Columns = columns, Rows = rows,
                 Tiles = replicate (nat rows) (replicate (nat columns) empty_tile)\<rparr>
         = Inr (concat (replicate (nat rows) (replicate (nat columns) CHR '' '' @ CRLF)))"
  using Render_result [OF wf_blank [OF assms]] by (simp add: frame_of_blank)


lemma set_tile_inside:
  "shape ts r c \<Longrightarrow> inside r c i j \<Longrightarrow> set_tile ts i j v = Inr (put_cell ts i j v)"
  by (auto simp: set_tile_def put_cell_def index_ok_def shape_nth inside_def)

lemma shape_put_cell:
  "shape ts r c \<Longrightarrow> shape (put_cell ts i j v) r c"
proof (cases "nat i < length ts")
  case True
  assume "shape ts r c"
  with True show ?thesis
    by (auto simp: put_cell_def shape_nth nth_list_update)
next
  case False
  assume "shape ts r c"
  with False show ?thesis
    by (simp add: put_cell_def list_update_beyond not_less)
qed

lemma cell_put_cell:
  "shape ts r c \<Longrightarrow> inside r c i j \<Longrightarrow> inside r c i' j' \<Longrightarrow>
     cell (put_cell ts i j v) i' j' = (if i' = i \<and> j' = j then v else cell ts i' j')"
proof -
  assume sh: "shape ts r c" and ij: "inside r c i j" and ij': "inside r c i' j'"
  from sh ij have i: "nat i < length ts"
    by (auto simp: shape_nth inside_def)
  with sh ij have j: "nat j < length (ts ! nat i)"
    by (auto simp: shape_nth inside_def)
  from ij ij' have eq: "nat i' = nat i \<longleftrightarrow> i' = i" "nat j' = nat j \<longleftrightarrow> j' = j"
    by (auto simp: inside_def)
  show ?thesis
  proof (cases "i' = i")
    case True
    with i j eq show ?thesis
      by (auto simp: put_cell_def cell_def nth_list_update)
  next
    case False
    with i eq show ?thesis
      by (simp add: put_cell_def cell_def nth_list_update)
  qed
qed

lemma DrawRect_horizontal_cells:
  assumes "shape ts r c" and "0 \<le> j" and "x1 \<le> c" and "0 \<le> y0" and "y0 < r" and "0 \<le> y1" and "y1 < r"
  shows "\<exists>ts'. DrawRect_horizontal ts j x1 y0 y1 h = Inr ts' \<and> shape ts' r c \<and>
           (\<forall>i' j'. inside r c i' j' \<longrightarrow>
              cell ts' i' j' = (if (i' = y0 \<or> i' = y1) \<and> j \<le> j' \<and> j' < x1 then h else cell ts i' j'))"
  using assms
proof (induction ts j x1 y0 y1 h rule: DrawRect_horizontal.induct)
  case (1 ts j x1 y0 y1 h)
  show ?case
  proof (cases "j < x1")
    case False
    with "1.prems" show ?thesis
      by (auto simp: DrawRect_horizontal.simps [of ts j x1 y0 y1 h])
  next
    case True
    let ?ts1 = "put_cell ts y0 j h"
    let ?ts2 = "put_cell ?ts1 y1 j h"
    from True "1.prems" have in0: "inside r c y0 j" and in1: "inside r c y1 j"
      by (simp_all add: inside_def)
    have s1: "set_tile ts y0 j h = Inr ?ts1"
      using "1.prems"(1) in0 by (rule set_tile_inside)
    have sh1: "shape ?ts1 r c"
      using "1.prems"(1) by (rule shape_put_cell)
    have s2: "set_tile ?ts1 y1 j h = Inr ?ts2"
      using sh1 in1 by (rule set_tile_inside)
    have sh2: "shape ?ts2 r c"
      using sh1 by (rule shape_put_cell)
    from "1.IH" [OF True s1 s2 sh2] "1.prems"
    obtain ts' where run: "DrawRect_horizontal ?ts2 (j + 1) x1 y0 y1 h = Inr ts'"
      and sh': "shape ts' r c"
      and cells: "\<forall>i' j'. inside r c i' j' \<longrightarrow>
              cell ts' i' j' = (if (i' = y0 \<or> i' = y1) \<and> j + 1 \<le> j' \<and> j' < x1 then h else cell ?ts2 i' j')"
      by auto
    have "cell ts' i' j' = (if (i' = y0 \<or> i' = y1) \<and> j \<le> j' \<and> j' < x1 then h else cell ts i' j')"
      if "inside r c i' j'" for i' j'
      using that True cells cell_put_cell [OF sh1 in1 that] cell_put_cell [OF "1.prems"(1) in0 that]
      by auto
    with run sh' True s1 s2 show ?thesis
      by (simp add: DrawRect_horizontal.simps [of ts j x1 y0 y1 h])
  qed
qed

lemma DrawRect_vertical_cells:
  assumes "shape ts r c" and "0 \<le> i" and "y1 \<le> r" and "0 \<le> x0" and "x0 < c" and "0 \<le> x1" and "x1 < c"
  shows "\<exists>ts'. DrawRect_vertical ts i y1 x0 x1 v = Inr ts' \<and> shape ts' r c \<and>
           (\<forall>i' j'. inside r c i' j' \<longrightarrow>
              cell ts' i' j' = (if (j' = x0 \<or> j' = x1) \<and> i \<le> i' \<and> i' < y1 then v else cell ts i' j'))"
  using assms
proof (induction ts i y1 x0 x1 v rule: DrawRect_vertical.induct)
  case (1 ts i y1 x0 x1 v)
  show ?case
  proof (cases "i < y1")
    case False
    with "1.prems" show ?thesis
      by (auto simp: DrawRect_vertical.simps [of ts i y1 x0 x1 v])
  next
    case True
    let ?ts1 = "put_cell ts i x0 v"
    let ?ts2 = "put_cell ?ts1 i x1 v"
    from True "1.prems" have in0: "inside r c i x0" and in1: "inside r c i x1"
      by (simp_all add: inside_def)
    have s1: "set_tile ts i x0 v = Inr ?ts1"
      using "1.prems"(1) in0 by (rule set_tile_inside)
    have sh1: "shape ?ts1 r c"
      using "1.prems"(1) by (rule shape_put_cell)
    have s2: "set_tile ?ts1 i x1 v = Inr ?ts2"
      using sh1 in1 by (rule set_tile_inside)
    have sh2: "shape ?ts2 r c"
      using sh1 by (rule shape_put_cell)
    from "1.IH" [OF True s1 s2 sh2] "1.prems"
    obtain ts' where run: "DrawRect_vertical ?ts2 (i + 1) y1 x0 x1 v = Inr ts'"
      and sh': "shape ts' r c"
      and cells: "\<forall>i' j'. inside r c i' j' \<longrightarrow>
              cell ts' i' j' = (if (j' = x0 \<or> j' = x1) \<and> i + 1 \<le> i' \<and> i' < y1 then v else cell ?ts2 i' j')"
      by auto
    have "cell ts' i' j' = (if (j' = x0 \<or> j' = x1) \<and> i \<le> i' \<and> i' < y1 then v else cell ts i' j')"
      if "inside r c i' j'" for i' j'
      using that True cells cell_put_cell [OF sh1 in1 that] cell_put_cell [OF "1.prems"(1) in0 that]
      by auto
    with run sh' True s1 s2 show ?thesis
      by (simp add: DrawRect_vertical.simps [of ts i y1 x0 x1 v])
  qed
qed

lemma DrawRect_corners_cells:
  assumes sh: "shape ts r c" and tl: "inside r c y0 x0" and br: "inside r c y1 x1"
  shows "\<exists>ts'. DrawRect_corners spr ts x0 y0 x1 y1 fg = Inr ts' \<and> shape ts' r c \<and>
           (\<forall>i' j'. inside r c i' j' \<longrightarrow>
              cell ts' i' j' =
                (if i' = y1 \<and> j' = x0 then spr [fg] bottomLeft
                 else if i' = y1 \<and> j' = x1 then spr [fg] bottomRight
                 else if i' = y0 \<and> j' = x1 then spr [fg] topRight
                 else if i' = y0 \<and> j' = x0 then spr [fg] topLeft
                 else cell ts i' j'))"
proof -
  let ?ts1 = "put_cell ts y0 x0 (spr [fg] topLeft)"
  let ?ts2 = "put_cell ?ts1 y0 x1 (spr [fg] topRight)"
  let ?ts3 = "put_cell ?ts2 y1 x1 (spr [fg] bottomRight)"
  let ?ts4 = "put_cell ?ts3 y1 x0 (spr [fg] bottomLeft)"
  from tl br have tr: "inside r c y0 x1" and bl: "inside r c y1 x0"
    by (simp_all add: inside_def)
  have sh1: "shape ?ts1 r c" using sh by (rule shape_put_cell)
  have sh2: "shape ?ts2 r c" using sh1 by (rule shape_put_cell)
  have sh3: "shape ?ts3 r c" using sh2 by (rule shape_put_cell)
  have sh4: "shape ?ts4 r c" using sh3 by (rule shape_put_cell)
  have run: "DrawRect_corners spr ts x0 y0 x1 y1 fg = Inr ?ts4"
    by (simp add: DrawRect_corners_def set_tile_inside [OF sh tl] set_tile_inside [OF sh1 tr]
        set_tile_inside [OF sh2 br] set_tile_inside [OF sh3 bl])
  have "cell ?ts4 i' j' =
          (if i' = y1 \<and> j' = x0 then spr [fg] bottomLeft
           else if i' = y1 \<and> j' = x1 then spr [fg] bottomRight
           else if i' = y0 \<and> j' = x1 then spr [fg] topRight
           else if i' = y0 \<and> j' = x0 then spr [fg] topLeft
           else cell ts i' j')"
    if "inside r c i' j'" for i' j'
    by (simp only: cell_put_cell [OF sh3 bl that] cell_put_cell [OF sh2 br that]
        cell_put_cell [OF sh1 tr that] cell_put_cell [OF sh tl that])
  with run sh4 show ?thesis by blast
qed

section \<open>Creating and serialising a screen\<close>


lemma NewPlayerScreen_too_large_any_limit:
  "NewPlayerScreen maxAlloc (2 ^ 62) 0 = Inl MakeSliceLenOutOfRange"
  by (simp add: NewPlayerScreen_def make_slice_def sizeof_slice_def)



text \<open>
  Claim C7, as stated, reads the frame of a blank screen as its lines joined by
  carriage-return/line-feed pairs. \<open>Render\<close> writes the pair after every row, the last
  one included: the frame of the blank 1 by 1 screen is a blank followed by the pair,
  which is not the one-line join.
\<close>

theorem Render_blank_not_joined:
  "NewPlayerScreen maxAlloc48 1 1 = Inr \<lparr>Columns = 1, Rows = 1, Tiles = [[empty_tile]]\<rparr> \<and>
   Render \<lparr>Columns = 1, Rows = 1, Tiles = [[empty_tile]]\<rparr> = Inr ('' '' @ CRLF) \<and>
   Render \<lparr>Columns = 1, Rows = 1, Tiles = [[empty_tile]]\<rparr> \<noteq> Inr (spec_join_CRLF ['' ''])"
  by code_simp

text \<open>
  Claim C7, amended. For the blank screen of \<open>R\<close> rows and \<open>C\<close> columns, whatever
  \<open>R\<close> and \<open>C\<close> are, \<open>Render\<close> returns exactly \<open>R\<close> lines in row order, each of
  exactly \<open>C\<close> blank glyphs and each followed by a carriage return and a line feed.
\<close>

theorem Render_blank_lines:
  "Render \<lparr>Columns = int C, Rows = int R, Tiles = replicate R (replicate C empty_tile)\<rparr> =
     Inr (concat (replicate R (replicate C CHR '' '' @ CRLF)))"
  using Render_blank [of "int R" "int C"] by simp

theorem Render_blank_lines_witness:
  "Render \<lparr>Columns = 3, Rows = 2,
          Tiles = [[empty_tile, empty_tile, empty_tile], [empty_tile, empty_tile, empty_tile]]\<rparr> =
     Inr (''   '' @ CRLF @ ''   '' @ CRLF)"
  using Render_blank_lines [of 3 2] by (simp add: numeral_2_eq_2 numeral_3_eq_3)




section \<open>Drawing a rectangle\<close>

lemma DrawRect_out_of_bounds:
  assumes wf: "wf_screen s"
    and out: "\<not> (0 \<le> topLeftX \<and> topLeftX \<le> Columns s - 1 \<and>
      0 \<le> bottomRightX \<and> bottomRightX \<le> Columns s - 1 \<and>
      0 \<le> topLeftY \<and> topLeftY \<le> Rows s - 1 \<and>
      0 \<le> bottomRightY \<and> bottomRightY \<le> Rows s - 1)"
  shows "DrawRect spr s topLeftX topLeftY bottomRightX bottomRightY fg = Inr s"
proof (cases "0 < Rows s")
  case True
  with out show ?thesis
    by (auto simp: DrawRect_def minus_one_Rows [OF wf] minus_one_Columns [OF wf True])
next
  case False
  with wf_Rows [OF wf] have "Rows s = 0" by simp
  then show ?thesis
    by (simp add: DrawRect_def minus_one_def)
qed

lemma DrawRect_in_bounds:
  assumes wf: "wf_screen s"
    and tlx: "0 \<le> topLeftX" "topLeftX \<le> Columns s - 1"
    and brx: "0 \<le> bottomRightX" "bottomRightX \<le> Columns s - 1"
    and tly: "0 \<le> topLeftY" "topLeftY \<le> Rows s - 1"
    and bry: "0 \<le> bottomRightY" "bottomRightY \<le> Rows s - 1"
  shows "\<exists>ts. DrawRect spr s topLeftX topLeftY bottomRightX bottomRightY fg = Inr (s\<lparr>Tiles := ts\<rparr>) \<and>
           shape ts (Rows s) (Columns s) \<and>
           (\<forall>i j. inside (Rows s) (Columns s) i j \<longrightarrow>
              cell ts i j =
                (if i = bottomRightY \<and> j = topLeftX then spr [fg] bottomLeft
                 else if i = bottomRightY \<and> j = bottomRightX then spr [fg] bottomRight
                 else if i = topLeftY \<and> j = bottomRightX then spr [fg] topRight
                 else if i = topLeftY \<and> j = topLeftX then spr [fg] topLeft
                 else if (j = topLeftX \<or> j = bottomRightX) \<and> topLeftY \<le> i \<and> i < bottomRightY
                   then spr [fg] verticalWall
                 else if (i = topLeftY \<or> i = bottomRightY) \<and> topLeftX \<le> j \<and> j < bottomRightX
                   then spr [fg] horizontalWall
                 else cell (Tiles s) i j))"
proof -
  let ?r = "Rows s" and ?c = "Columns s"
  from wf have sh: "shape (Tiles s) ?r ?c" by (simp add: wf_screen_def)
  from DrawRect_horizontal_cells [OF sh tlx(1), of bottomRightX topLeftY bottomRightY
      "spr [fg] horizontalWall"] brx tly bry
  obtain ts1 where h: "DrawRect_horizontal (Tiles s) topLeftX bottomRightX topLeftY bottomRightY
                         (spr [fg] horizontalWall) = Inr ts1"
    and sh1: "shape ts1 ?r ?c"
    and c1: "\<forall>i j. inside ?r ?c i j \<longrightarrow>
               cell ts1 i j =
                 (if (i = topLeftY \<or> i = bottomRightY) \<and> topLeftX \<le> j \<and> j < bottomRightX
                  then spr [fg] horizontalWall else cell (Tiles s) i j)"
    by auto
  from DrawRect_vertical_cells [OF sh1 tly(1), of bottomRightY topLeftX bottomRightX
      "spr [fg] verticalWall"] tlx brx bry
  obtain ts2 where v: "DrawRect_vertical ts1 topLeftY bottomRightY topLeftX bottomRightX
                         (spr [fg] verticalWall) = Inr ts2"
    and sh2: "shape ts2 ?r ?c"
    and c2: "\<forall>i j. inside ?r ?c i j \<longrightarrow>
               cell ts2 i j =
                 (if (j = topLeftX \<or> j = bottomRightX) \<and> topLeftY \<le> i \<and> i < bottomRightY
                  then spr [fg] verticalWall else cell ts1 i j)"
    by auto
  have tl: "inside ?r ?c topLeftY topLeftX" and br: "inside ?r ?c bottomRightY bottomRightX"
    using tlx brx tly bry by (simp_all add: inside_def)
  from DrawRect_corners_cells [OF sh2 tl br, of spr fg]
  obtain ts3 where c: "DrawRect_corners spr ts2 topLeftX topLeftY bottomRightX bottomRightY fg = Inr ts3"
    and sh3: "shape ts3 ?r ?c"
    and c3: "\<forall>i j. inside ?r ?c i j \<longrightarrow>
               cell ts3 i j =
                (if i = bottomRightY \<and> j = topLeftX then spr [fg] bottomLeft
                 else if i = bottomRightY \<and> j = bottomRightX then spr [fg] bottomRight
                 else if i = topLeftY \<and> j = bottomRightX then spr [fg] topRight
                 else if i = topLeftY \<and> j = topLeftX then spr [fg] topLeft
                 else cell ts2 i j)"
    by auto
  from tly have pos: "0 < Rows s" by simp
  have run: "DrawRect spr s topLeftX topLeftY bottomRightX bottomRightY fg = Inr (s\<lparr>Tiles := ts3\<rparr>)"
    using tlx brx tly bry h v c
    by (simp add: DrawRect_def minus_one_Rows [OF wf] minus_one_Columns [OF wf pos])
  have "cell ts3 i j =
                (if i = bottomRightY \<and> j = topLeftX then spr [fg] bottomLeft
                 else if i = bottomRightY \<and> j = bottomRightX then spr [fg] bottomRight
                 else if i = topLeftY \<and> j = bottomRightX then spr [fg] topRight
                 else if i = topLeftY \<and> j = topLeftX then spr [fg] topLeft
                 else if (j = topLeftX \<or> j = bottomRightX) \<and> topLeftY \<le> i \<and> i < bottomRightY
                   then spr [fg] verticalWall
                 else if (i = topLeftY \<or> i = bottomRightY) \<and> topLeftX \<le> j \<and> j < bottomRightX
                   then spr [fg] horizontalWall
                 else cell (Tiles s) i j)"
    if "inside ?r ?c i j" for i j
  proof -
    from c1 that have e1: "cell ts1 i j =
        (if (i = topLeftY \<or> i = bottomRightY) \<and> topLeftX \<le> j \<and> j < bottomRightX
         then spr [fg] horizontalWall else cell (Tiles s) i j)"
      by blast
    from c2 that have e2: "cell ts2 i j =
        (if (j = topLeftX \<or> j = bottomRightX) \<and> topLeftY \<le> i \<and> i < bottomRightY
         then spr [fg] verticalWall else cell ts1 i j)"
      by blast
    from c3 that have e3: "cell ts3 i j =
        (if i = bottomRightY \<and> j = topLeftX then spr [fg] bottomLeft
         else if i = bottomRightY \<and> j = bottomRightX then spr [fg] bottomRight
         else if i = topLeftY \<and> j = bottomRightX then spr [fg] topRight
         else if i = topLeftY \<and> j = topLeftX then spr [fg] topLeft
         else cell ts2 i j)"
      by blast
    show ?thesis
      unfolding e3 e2 e1 by auto
  qed
  with run sh3 show ?thesis by blast
qed

text \<open>
  Claim C5. On a well-formed screen \<open>DrawRect\<close> is all or nothing. When one of the
  four coordinates lies outside the screen, the call returns the screen as it was. When
  all four lie inside, the call returns and every cell of the result is determined: the
  four corner cells hold the corner glyphs, written last (where two corners coincide the
  later store stands); the other cells of the two vertical runs
  \<open>topLeftY \<le> i < bottomRightY\<close> hold the vertical glyph; the other cells of the two
  horizontal runs \<open>topLeftX \<le> j < bottomRightX\<close> hold the horizontal glyph; every
  remaining cell is unchanged.
\<close>

theorem DrawRect_all_or_nothing:
  assumes "wf_screen s"
  shows "if 0 \<le> topLeftX \<and> topLeftX \<le> Columns s - 1 \<and>
      0 \<le> bottomRightX \<and> bottomRightX \<le> Columns s - 1 \<and>
      0 \<le> topLeftY \<and> topLeftY \<le> Rows s - 1 \<and>
      0 \<le> bottomRightY \<and> bottomRightY \<le> Rows s - 1
         then \<exists>ts. DrawRect spr s topLeftX topLeftY bottomRightX bottomRightY fg = Inr (s\<lparr>Tiles := ts\<rparr>) \<and>
                shape ts (Rows s) (Columns s) \<and>
                (\<forall>i j. inside (Rows s) (Columns s) i j \<longrightarrow>
                   cell ts i j =
                (if i = bottomRightY \<and> j = topLeftX then spr [fg] bottomLeft
                 else if i = bottomRightY \<and> j = bottomRightX then spr [fg] bottomRight
                 else if i = topLeftY \<and> j = bottomRightX then spr [fg] topRight
                 else if i = topLeftY \<and> j = topLeftX then spr [fg] topLeft
                 else if (j = topLeftX \<or> j = bottomRightX) \<and> topLeftY \<le> i \<and> i < bottomRightY
                   then spr [fg] verticalWall
                 else if (i = topLeftY \<or> i = bottomRightY) \<and> topLeftX \<le> j \<and> j < bottomRightX
                   then spr [fg] horizontalWall
                 else cell (Tiles s) i j))
         else DrawRect spr s topLeftX topLeftY bottomRightX bottomRightY fg = Inr s"
proof (cases "0 \<le> topLeftX \<and> topLeftX \<le> Columns s - 1 \<and>
      0 \<le> bottomRightX \<and> bottomRightX \<le> Columns s - 1 \<and>
      0 \<le> topLeftY \<and> topLeftY \<le> Rows s - 1 \<and>
      0 \<le> bottomRightY \<and> bottomRightY \<le> Rows s - 1")
  case True
  then have "\<exists>ts. DrawRect spr s topLeftX topLeftY bottomRightX bottomRightY fg = Inr (s\<lparr>Tiles := ts\<rparr>) \<and>
                shape ts (Rows s) (Columns s) \<and>
                (\<forall>i j. inside (Rows s) (Columns s) i j \<longrightarrow>
                   cell ts i j =
                (if i = bottomRightY \<and> j = topLeftX then spr [fg] bottomLeft
                 else if i = bottomRightY \<and> j = bottomRightX then spr [fg] bottomRight
                 else if i = topLeftY \<and> j = bottomRightX then spr [fg] topRight
                 else if i = topLeftY \<and> j = topLeftX then spr [fg] topLeft
                 else if (j = topLeftX \<or> j = bottomRightX) \<and> topLeftY \<le> i \<and> i < bottomRightY
                   then spr [fg] verticalWall
                 else if (i = topLeftY \<or> i = bottomRightY) \<and> topLeftX \<le> j \<and> j < bottomRightX
                   then spr [fg] horizontalWall
                 else cell (Tiles s) i j))"
    by (intro DrawRect_in_bounds [OF assms]) simp_all
  then show ?thesis
    by (subst if_P [OF True])
next
  case False
  show ?thesis
    by (subst if_not_P [OF False]) (rule DrawRect_out_of_bounds [OF assms False])
qed

text \<open>
  Claim C10, amended. For every call with all four coordinates inside a well-formed
  screen, \<open>bottomRightX \<le> topLeftX\<close> and \<open>bottomRightY \<le> topLeftY\<close>, both edge
  loops are empty: no edge glyph is painted, the four corner glyphs are stored at the
  four coordinate combinations (a later store standing where two coincide), and every
  other cell is unchanged.
\<close>

theorem DrawRect_inverted:
  assumes "wf_screen s"
    and "0 \<le> topLeftX" "topLeftX \<le> Columns s - 1"
    and "0 \<le> bottomRightX" "bottomRightX \<le> Columns s - 1"
    and "0 \<le> topLeftY" "topLeftY \<le> Rows s - 1"
    and "0 \<le> bottomRightY" "bottomRightY \<le> Rows s - 1"
    and "bottomRightX \<le> topLeftX" and "bottomRightY \<le> topLeftY"
  shows "\<exists>ts. DrawRect spr s topLeftX topLeftY bottomRightX bottomRightY fg = Inr (s\<lparr>Tiles := ts\<rparr>) \<and>
           shape ts (Rows s) (Columns s) \<and>
           (\<forall>i j. inside (Rows s) (Columns s) i j \<longrightarrow>
              cell ts i j =
                (if i = bottomRightY \<and> j = topLeftX then spr [fg] bottomLeft
                 else if i = bottomRightY \<and> j = bottomRightX then spr [fg] bottomRight
                 else if i = topLeftY \<and> j = bottomRightX then spr [fg] topRight
                 else if i = topLeftY \<and> j = topLeftX then spr [fg] topLeft
                 else cell (Tiles s) i j))"
proof -
  from DrawRect_in_bounds [OF assms(1-9), of spr fg]
  obtain ts where run: "DrawRect spr s topLeftX topLeftY bottomRightX bottomRightY fg = Inr (s\<lparr>Tiles := ts\<rparr>)"
    and sh: "shape ts (Rows s) (Columns s)"
    and cells: "\<forall>i j. inside (Rows s) (Columns s) i j \<longrightarrow>
              cell ts i j =
                (if i = bottomRightY \<and> j = topLeftX then spr [fg] bottomLeft
                 else if i = bottomRightY \<and> j = bottomRightX then spr [fg] bottomRight
                 else if i = topLeftY \<and> j = bottomRightX then spr [fg] topRight
                 else if i = topLeftY \<and> j = topLeftX then spr [fg] topLeft
                 else if (j = topLeftX \<or> j = bottomRightX) \<and> topLeftY \<le> i \<and> i < bottomRightY
                   then spr [fg] verticalWall
                 else if (i = topLeftY \<or> i = bottomRightY) \<and> topLeftX \<le> j \<and> j < bottomRightX
                   then spr [fg] horizontalWall
                 else cell (Tiles s) i j)"
    by blast
  have "cell ts i j =
                (if i = bottomRightY \<and> j = topLeftX then spr [fg] bottomLeft
                 else if i = bottomRightY \<and> j = bottomRightX then spr [fg] bottomRight
                 else if i = topLeftY \<and> j = bottomRightX then spr [fg] topRight
                 else if i = topLeftY \<and> j = topLeftX then spr [fg] topLeft
                 else cell (Tiles s) i j)"
    if "inside (Rows s) (Columns s) i j" for i j
    using cells that assms(10,11) by auto
  with run sh show ?thesis by blast
qed

lemma wf_blank_3_4: "wf_screen blank_3_4"
  by (simp add: blank_3_4_def wf_screen_def shape_def list_all_iff)

lemma wf_blank_3_3: "wf_screen blank_3_3"
  by (simp add: blank_3_3_def wf_screen_def shape_def list_all_iff)

theorem DrawRect_all_or_nothing_witness:
  "wf_screen blank_3_4 \<and>
   (\<exists>ts. DrawRect ansi blank_3_4 0 0 3 2 FgCyan = Inr (blank_3_4\<lparr>Tiles := ts\<rparr>) \<and>
      cell ts 0 0 = ansi [FgCyan] topLeft \<and>
      cell ts 0 1 = ansi [FgCyan] horizontalWall \<and>
      cell ts 0 3 = ansi [FgCyan] topRight \<and>
      cell ts 1 3 = ansi [FgCyan] verticalWall \<and>
      cell ts 2 3 = ansi [FgCyan] bottomRight \<and>
      cell ts 1 1 = empty_tile) \<and>
   DrawRect ansi blank_3_4 0 0 4 2 FgCyan = Inr blank_3_4"
proof -
  have sz: "Rows blank_3_4 = 3" "Columns blank_3_4 = 4"
    by (simp_all add: blank_3_4_def)
  from DrawRect_all_or_nothing [OF wf_blank_3_4, where topLeftX = 0 and topLeftY = 0
      and bottomRightX = 3 and bottomRightY = 2 and spr = ansi and fg = FgCyan]
  obtain ts where run: "DrawRect ansi blank_3_4 0 0 3 2 FgCyan = Inr (blank_3_4\<lparr>Tiles := ts\<rparr>)"
    and cells: "\<forall>i j. inside 3 4 i j \<longrightarrow>
                   cell ts i j =
                     (if i = 2 \<and> j = 0 then ansi [FgCyan] bottomLeft
                      else if i = 2 \<and> j = 3 then ansi [FgCyan] bottomRight
                      else if i = 0 \<and> j = 3 then ansi [FgCyan] topRight
                      else if i = 0 \<and> j = 0 then ansi [FgCyan] topLeft
                      else if (j = 0 \<or> j = 3) \<and> 0 \<le> i \<and> i < 2 then ansi [FgCyan] verticalWall
                      else if (i = 0 \<or> i = 2) \<and> 0 \<le> j \<and> j < 3 then ansi [FgCyan] horizontalWall
                      else cell (Tiles blank_3_4) i j)"
    unfolding sz by auto
  have "cell ts 0 0 = ansi [FgCyan] topLeft" "cell ts 0 1 = ansi [FgCyan] horizontalWall"
    "cell ts 0 3 = ansi [FgCyan] topRight" "cell ts 1 3 = ansi [FgCyan] verticalWall"
    "cell ts 2 3 = ansi [FgCyan] bottomRight" "cell ts 1 1 = cell (Tiles blank_3_4) 1 1"
    using cells by (simp_all add: inside_def)
  moreover have "cell (Tiles blank_3_4) 1 1 = empty_tile"
    by (simp add: blank_3_4_def cell_def numeral_3_eq_3)
  moreover have "DrawRect ansi blank_3_4 0 0 4 2 FgCyan = Inr blank_3_4"
    using DrawRect_all_or_nothing [OF wf_blank_3_4, where topLeftX = 0 and topLeftY = 0
      and bottomRightX = 4 and bottomRightY = 2 and spr = ansi and fg = FgCyan]
    unfolding sz by simp
  ultimately show ?thesis
    using run wf_blank_3_4 by auto
qed

theorem DrawRect_inverted_witness:
  "wf_screen blank_3_3 \<and>
   (\<exists>ts. DrawRect ansi blank_3_3 2 2 0 0 FgCyan = Inr (blank_3_3\<lparr>Tiles := ts\<rparr>) \<and>
      cell ts 2 2 = ansi [FgCyan] topLeft \<and>
      cell ts 2 0 = ansi [FgCyan] topRight \<and>
      cell ts 0 0 = ansi [FgCyan] bottomRight \<and>
      cell ts 0 2 = ansi [FgCyan] bottomLeft \<and>
      cell ts 0 1 = empty_tile \<and> cell ts 1 0 = empty_tile \<and> cell ts 1 1 = empty_tile \<and>
      cell ts 1 2 = empty_tile \<and> cell ts 2 1 = empty_tile)"
proof -
  have sz: "Rows blank_3_3 = 3" "Columns blank_3_3 = 3"
    by (simp_all add: blank_3_3_def)
  from DrawRect_inverted [OF wf_blank_3_3, where topLeftX = 2 and topLeftY = 2
      and bottomRightX = 0 and bottomRightY = 0 and spr = ansi and fg = FgCyan]
  obtain ts where run: "DrawRect ansi blank_3_3 2 2 0 0 FgCyan = Inr (blank_3_3\<lparr>Tiles := ts\<rparr>)"
    and cells: "\<forall>i j. inside 3 3 i j \<longrightarrow>
                   cell ts i j =
                     (if i = 0 \<and> j = 2 then ansi [FgCyan] bottomLeft
                      else if i = 0 \<and> j = 0 then ansi [FgCyan] bottomRight
                      else if i = 2 \<and> j = 0 then ansi [FgCyan] topRight
                      else if i = 2 \<and> j = 2 then ansi [FgCyan] topLeft
                      else cell (Tiles blank_3_3) i j)"
    unfolding sz by auto
  have "cell ts 2 2 = ansi [FgCyan] topLeft" "cell ts 2 0 = ansi [FgCyan] topRight"
    "cell ts 0 0 = ansi [FgCyan] bottomRight" "cell ts 0 2 = ansi [FgCyan] bottomLeft"
    "cell ts 0 1 = cell (Tiles blank_3_3) 0 1" "cell ts 1 0 = cell (Tiles blank_3_3) 1 0"
    "cell ts 1 1 = cell (Tiles blank_3_3) 1 1" "cell ts 1 2 = cell (Tiles blank_3_3) 1 2"
    "cell ts 2 1 = cell (Tiles blank_3_3) 2 1"
    using cells by (simp_all add: inside_def)
  moreover have "cell (Tiles blank_3_3) 0 1 = empty_tile" "cell (Tiles blank_3_3) 1 0 = empty_tile"
    "cell (Tiles blank_3_3) 1 1 = empty_tile" "cell (Tiles blank_3_3) 1 2 = empty_tile"
    "cell (Tiles blank_3_3) 2 1 = empty_tile"
    by (simp_all add: blank_3_3_def cell_def numeral_3_eq_3 numeral_2_eq_2)
  ultimately show ?thesis
    using run wf_blank_3_3 by auto
qed

text \<open>
  Claim C10, as stated, lets either dimension be inverted alone. With only the columns
  inverted the vertical loop still runs: on the blank 3 by 3 screen the call
  \<open>DrawRect 2 0 0 2\<close> stores the vertical glyph in row 1, columns 0 and 2, which are
  not corner cells.
\<close>

theorem DrawRect_inverted_x_only:
  "DrawRect ansi blank_3_3 2 0 0 2 FgCyan =
     Inr (blank_3_3\<lparr>Tiles :=
       [[ansi [FgCyan] topRight, empty_tile, ansi [FgCyan] topLeft],
        [ansi [FgCyan] verticalWall, empty_tile, ansi [FgCyan] verticalWall],
        [ansi [FgCyan] bottomRight, empty_tile, ansi [FgCyan] bottomLeft]]\<rparr>) \<and>
   cell (Tiles blank_3_3) 1 0 = empty_tile \<and>
   ansi [FgCyan] verticalWall \<noteq> empty_tile"
  by code_simp

section \<open>Placing text and composing a screen\<close>

lemma SetText_loop_fits:
  assumes "shape ts r c" and "0 \<le> i" and "i < r" and "0 \<le> j" and "0 \<le> iter"
    and "j + int (length str) \<le> c"
  shows "\<exists>ts'. SetText_loop spr ts str i j iter fg bg = Inr ts' \<and> shape ts' r c"
  using assms
proof (induction spr ts str i j iter fg bg rule: SetText_loop.induct)
  case (1 spr ts str i j iter fg bg)
  show ?case
  proof (cases "iter < int (length str)")
    case False
    with "1.prems" show ?thesis
      by (simp add: SetText_loop.simps [of spr ts str i j iter fg bg])
  next
    case True
    let ?v = "spr [fg, bg] (string_of_byte (str ! nat iter))"
    let ?ts1 = "put_cell ts i (j + iter) ?v"
    from True "1.prems" have "inside r c i (j + iter)"
      by (simp add: inside_def)
    with "1.prems"(1) have st: "set_tile ts i (j + iter) ?v = Inr ?ts1"
      by (rule set_tile_inside)
    have sh1: "shape ?ts1 r c"
      using "1.prems"(1) by (rule shape_put_cell)
    from "1.IH" [OF True st sh1] "1.prems"
    obtain ts' where "SetText_loop spr ?ts1 str i j (iter + 1) fg bg = Inr ts'" and "shape ts' r c"
      by auto
    with True st show ?thesis
      by (simp add: SetText_loop.simps [of spr ts str i j iter fg bg])
  qed
qed

lemma SetText_fits:
  assumes wf: "wf_screen s" and "0 \<le> i" and "0 \<le> j"
    and "i + int (length txt) \<le> Columns s - 1" and "j + int (length txt) \<le> Columns s"
  shows "\<exists>ts. SetText spr s txt i j fg bg = Inr (s\<lparr>Tiles := ts\<rparr>) \<and> shape ts (Rows s) (Columns s)"
proof (cases "i > Rows s - 1")
  case True
  with wf have "SetText spr s txt i j fg bg = Inr (s\<lparr>Tiles := Tiles s\<rparr>)"
    and "shape (Tiles s) (Rows s) (Columns s)"
    by (simp_all add: SetText_def wf_screen_def minus_one_Rows [OF wf])
  then show ?thesis by blast
next
  case False
  from wf have sh: "shape (Tiles s) (Rows s) (Columns s)"
    by (simp add: wf_screen_def)
  from False have "i < Rows s" by simp
  with assms(2) have pos: "0 < Rows s" by simp
  from SetText_loop_fits [OF sh assms(2) \<open>i < Rows s\<close> assms(3) _ assms(5), of 0 spr fg bg]
  obtain ts where "SetText_loop spr (Tiles s) txt i j 0 fg bg = Inr ts"
    and "shape ts (Rows s) (Columns s)"
    by auto
  with False assms(4) have "SetText spr s txt i j fg bg = Inr (s\<lparr>Tiles := ts\<rparr>)"
    and "shape ts (Rows s) (Columns s)"
    by (simp_all add: SetText_def minus_one_Rows [OF wf] minus_one_Columns [OF wf pos])
  then show ?thesis by blast
qed

lemma SetText_below:
  "wf_screen s \<Longrightarrow> i > Rows s - 1 \<Longrightarrow> SetText spr s txt i j fg bg = Inr s"
  by (simp add: SetText_def minus_one_Rows)

lemma DrawRect_total:
  assumes "wf_screen s"
  shows "\<exists>ts. DrawRect spr s topLeftX topLeftY bottomRightX bottomRightY fg = Inr (s\<lparr>Tiles := ts\<rparr>) \<and>
           shape ts (Rows s) (Columns s)"
proof (cases "0 \<le> topLeftX \<and> topLeftX \<le> Columns s - 1 \<and>
      0 \<le> bottomRightX \<and> bottomRightX \<le> Columns s - 1 \<and>
      0 \<le> topLeftY \<and> topLeftY \<le> Rows s - 1 \<and>
      0 \<le> bottomRightY \<and> bottomRightY \<le> Rows s - 1")
  case True
  with DrawRect_in_bounds [OF assms, of topLeftX bottomRightX topLeftY bottomRightY spr fg]
  show ?thesis by blast
next
  case False
  from DrawRect_out_of_bounds [OF assms False, of spr fg] assms
  have "DrawRect spr s topLeftX topLeftY bottomRightX bottomRightY fg = Inr (s\<lparr>Tiles := Tiles s\<rparr>)"
    and "shape (Tiles s) (Rows s) (Columns s)"
    by (simp_all add: wf_screen_def)
  then show ?thesis by blast
qed

lemma Compute_total:
  assumes wf: "wf_screen s" and q: "qs qa = Some quiz"
    and fits: "Rows s \<le> 2 \<or> int (length (Title quiz)) + 3 \<le> Columns s"
  shows "\<exists>ts. Compute spr qs s (Some qa) = Inr (s\<lparr>Tiles := ts\<rparr>) \<and> shape ts (Rows s) (Columns s)"
proof -
  from DrawRect_total [OF wf, of spr 0 0 55 "minus_one (Rows s)" FgCyan]
  obtain ts1 where d1: "DrawRect spr s 0 0 55 (minus_one (Rows s)) FgCyan = Inr (s\<lparr>Tiles := ts1\<rparr>)"
    and sh1: "shape ts1 (Rows s) (Columns s)"
    by blast
  let ?s1 = "s\<lparr>Tiles := ts1\<rparr>"
  from sh1 have wf1: "wf_screen ?s1" by (simp add: wf_screen_def)
  have "\<exists>ts2. SetText spr ?s1 (Title quiz) 2 2 FgHiRed BgBlack = Inr (?s1\<lparr>Tiles := ts2\<rparr>) \<and>
          shape ts2 (Rows ?s1) (Columns ?s1)"
  proof (cases "Rows s \<le> 2")
    case True
    then have "SetText spr ?s1 (Title quiz) 2 2 FgHiRed BgBlack = Inr (?s1\<lparr>Tiles := ts1\<rparr>)"
      using minus_one_Rows [OF wf1] by (simp add: SetText_def)
    with sh1 show ?thesis by auto
  next
    case False
    with fits have "int (length (Title quiz)) + 3 \<le> Columns s" by simp
    then show ?thesis
      by (intro SetText_fits [OF wf1]) simp_all
  qed
  then obtain ts2 where st: "SetText spr ?s1 (Title quiz) 2 2 FgHiRed BgBlack = Inr (s\<lparr>Tiles := ts2\<rparr>)"
    and sh2: "shape ts2 (Rows s) (Columns s)"
    by auto
  let ?s2 = "s\<lparr>Tiles := ts2\<rparr>"
  from sh2 have wf2: "wf_screen ?s2" by (simp add: wf_screen_def)
  from DrawRect_total [OF wf2, of spr 56 0 "minus_one (Columns ?s2)" "minus_one (Rows ?s2)" FgHiYellow]
  obtain ts3 where d2: "DrawRect spr ?s2 56 0 (minus_one (Columns ?s2)) (minus_one (Rows ?s2)) FgHiYellow
                          = Inr (s\<lparr>Tiles := ts3\<rparr>)"
    and sh3: "shape ts3 (Rows s) (Columns s)"
    by auto
  from d1 q st d2 have "Compute spr qs s (Some qa) = Inr (s\<lparr>Tiles := ts3\<rparr>)"
    by (simp add: Compute_def deref_def)
  with sh3 show ?thesis by blast
qed

text \<open>
  Claim C1 says that a text which overflows the column bound is cut to exactly
  \<open>Columns - 1 - j\<close> characters and that the call never panics. \<open>SetText\<close> tests
  \<open>i + len(text) > Columns - 1\<close> with the row \<open>i\<close> and cuts to
  \<open>len(text) - Columns\<close> characters. On the blank 3 by 4 screen, "HEL" at row 0,
  column 2 is not cut and the third store panics; the same text at row 1 asks for a slice
  of negative length and panics; "HELLO" at row 0, column 1 is cut to one character where
  the claim says two.
\<close>

theorem SetText_overflow:
  "SetText ansi blank_3_4 ''HEL'' 0 2 FgHiRed BgBlack = Inl IndexOutOfRange \<and>
   SetText ansi blank_3_4 ''HEL'' 1 2 FgHiRed BgBlack = Inl SliceBoundsOutOfRange \<and>
   SetText ansi blank_3_4 ''HELLO'' 0 1 FgHiRed BgBlack =
     Inr (blank_3_4\<lparr>Tiles :=
       [[empty_tile, ansi [FgHiRed, BgBlack] ''H'', empty_tile, empty_tile],
        [empty_tile, empty_tile, empty_tile, empty_tile],
        [empty_tile, empty_tile, empty_tile, empty_tile]]\<rparr>)"
  by code_simp

text \<open>
  The one screen on which \<open>Columns - 1\<close> wraps around has no rows and \<open>-2^63\<close>
  columns. There the test for truncation is false, as in the source: a text of one
  character at a negative row panics on the store and the empty text returns.
\<close>

lemma SetText_least_Columns:
  "SetText ansi \<lparr>Columns = - (2 ^ 63), Rows = 0, Tiles = []\<rparr> ''A'' (- 1) 0 FgHiRed BgBlack =
     Inl IndexOutOfRange \<and>
   SetText ansi \<lparr>Columns = - (2 ^ 63), Rows = 0, Tiles = []\<rparr> [] (- 1) 0 FgHiRed BgBlack =
     Inr \<lparr>Columns = - (2 ^ 63), Rows = 0, Tiles = []\<rparr>"
  by code_simp

text \<open>
  Claim C2 says that every out-of-range request is a silent no-op. \<open>DrawRect\<close>
  checks all four coordinates against both bounds, and \<open>SetText\<close> checks only that
  the row is not past the last row: on the blank 3 by 4 screen a negative row, a column
  past the last column and a negative column all panic, while a row past the last row
  returns the screen unchanged.
\<close>

theorem SetText_out_of_range:
  "SetText ansi blank_3_4 ''A'' (- 1) 0 FgHiRed BgBlack = Inl IndexOutOfRange \<and>
   SetText ansi blank_3_4 ''A'' 0 4 FgHiRed BgBlack = Inl IndexOutOfRange \<and>
   SetText ansi blank_3_4 ''A'' 0 (- 1) FgHiRed BgBlack = Inl IndexOutOfRange \<and>
   SetText ansi blank_3_4 ''A'' 3 0 FgHiRed BgBlack = Inr blank_3_4"
  by code_simp

section \<open>Sessions and the broadcast tick\<close>

lemma clearScreen_not_empty: "clearScreen \<noteq> []"
  by (simp add: clearScreen_def)

lemma PlayerSession_Update_step:
  assumes s: "sessions h a = Some s" and q: "quizzes h qa = Some quiz"
    and wf: "wf_screen (screen s)"
    and fits: "Rows (screen s) \<le> 2 \<or> int (length (Title quiz)) + 3 \<le> Columns (screen s)"
  shows "\<exists>scr frame.
           Compute spr (quizzes h) (screen s) (Some qa) = Inr scr \<and> Render scr = Inr frame \<and>
           PlayerSession_Update spr (Some a) (Some qa) h =
             Inr (h\<lparr>sessions := (sessions h)(a \<mapsto>
                    s\<lparr>channel :=
                         (if broken (channel s) then channel s
                          else (channel s)\<lparr>received :=
                                 received (channel s) @ [clearScreen @ frame @ hideCursor]\<rparr>),
                       screen := scr\<rparr>)\<rparr>)"
proof -
  from Compute_total [where qs = "quizzes h" and spr = spr, OF wf q fits]
  obtain ts where c: "Compute spr (quizzes h) (screen s) (Some qa) = Inr ((screen s)\<lparr>Tiles := ts\<rparr>)"
    and sh: "shape ts (Rows (screen s)) (Columns (screen s))"
    by blast
  let ?scr = "(screen s)\<lparr>Tiles := ts\<rparr>"
  from sh have "wf_screen ?scr" by (simp add: wf_screen_def)
  then have r: "Render ?scr = Inr (frame_of (Tiles ?scr))"
    by (rule Render_result)
  have "PlayerSession_Update spr (Some a) (Some qa) h =
          Inr (h\<lparr>sessions := (sessions h)(a \<mapsto>
                    s\<lparr>channel :=
                         (if broken (channel s) then channel s
                          else (channel s)\<lparr>received :=
                                 received (channel s) @ [clearScreen @ frame_of (Tiles ?scr) @ hideCursor]\<rparr>),
                       screen := ?scr\<rparr>)\<rparr>)"
    using s c r
    by (simp add: PlayerSession_Update_def deref_def put_session_def io_Copy_def
        Channel_Write_def clearScreen_not_empty Let_def)
  with c r show ?thesis by blast
qed

text \<open>
  Claim C9. When \<open>PlayerSession.Update\<close> returns, the store of quizzes is the one it
  was given (title, difficulty, questions and index of every quiz, the one passed in
  included), every session other than the updated one is untouched, and the updated
  session keeps its name and its answers: only its screen and its sink have changed.
\<close>

theorem PlayerSession_Update_frame:
  assumes "PlayerSession_Update spr sp quizz h = Inr h'"
  shows "quizzes h' = quizzes h \<and>
         (\<forall>b. sp \<noteq> Some b \<longrightarrow> sessions h' b = sessions h b) \<and>
         (\<exists>a s s'. sp = Some a \<and> sessions h a = Some s \<and> sessions h' a = Some s' \<and>
            name s' = name s \<and> answers s' = answers s)"
  using assms
  by (auto simp: PlayerSession_Update_def deref_def put_session_def Let_def
      split: option.splits sum.splits prod.splits)

lemma Update_range_result:
  assumes "quizzes h qa = Some quiz"
    and "\<forall>e \<in> set reg. \<exists>a s. snd e = Some a \<and> sessions h a = Some s \<and>
              wf_screen (screen s) \<and>
              (Rows (screen s) \<le> 2 \<or> int (length (Title quiz)) + 3 \<le> Columns (screen s))"
    and "distinct (map snd reg)"
  shows "\<exists>h'. Update_range spr reg (Some qa) h = Inr h' \<and> quizzes h' = quizzes h \<and>
           (\<forall>b. Some b \<notin> snd ` set reg \<longrightarrow> sessions h' b = sessions h b) \<and>
           (\<forall>e \<in> set reg. \<exists>a s scr frame. snd e = Some a \<and> sessions h a = Some s \<and>
               Compute spr (quizzes h) (screen s) (Some qa) = Inr scr \<and> Render scr = Inr frame \<and>
               sessions h' a = Some (s\<lparr>channel :=
                            (if broken (channel s) then channel s
                             else (channel s)\<lparr>received :=
                                    received (channel s) @ [clearScreen @ frame @ hideCursor]\<rparr>),
                          screen := scr\<rparr>))"
  using assms
proof (induction reg arbitrary: h)
  case Nil
  then show ?case by simp
next
  case (Cons e rest)
  obtain n sp where e: "e = (n, sp)" by (cases e)
  from Cons.prems(2) e obtain a s where sp: "sp = Some a" and s: "sessions h a = Some s"
    and wf: "wf_screen (screen s)"
    and fits: "Rows (screen s) \<le> 2 \<or> int (length (Title quiz)) + 3 \<le> Columns (screen s)"
    by auto
  from PlayerSession_Update_step [OF s Cons.prems(1) wf fits, of spr]
  obtain scr frame where c: "Compute spr (quizzes h) (screen s) (Some qa) = Inr scr"
    and r: "Render scr = Inr frame"
    and step: "PlayerSession_Update spr (Some a) (Some qa) h =
                 Inr (h\<lparr>sessions := (sessions h)(a \<mapsto> s\<lparr>channel :=
                            (if broken (channel s) then channel s
                             else (channel s)\<lparr>received :=
                                    received (channel s) @ [clearScreen @ frame @ hideCursor]\<rparr>),
                          screen := scr\<rparr>)\<rparr>)"
    by blast
  let ?s1 = "s\<lparr>channel :=
                            (if broken (channel s) then channel s
                             else (channel s)\<lparr>received :=
                                    received (channel s) @ [clearScreen @ frame @ hideCursor]\<rparr>),
                          screen := scr\<rparr>"
  let ?h1 = "h\<lparr>sessions := (sessions h)(a \<mapsto> ?s1)\<rparr>"
  from Cons.prems(3) e sp have notin: "Some a \<notin> snd ` set rest" and d1: "distinct (map snd rest)"
    by auto
  have q1: "quizzes ?h1 qa = Some quiz"
    using Cons.prems(1) by simp
  have pre1: "\<forall>e \<in> set rest. \<exists>a s. snd e = Some a \<and> sessions ?h1 a = Some s \<and>
              wf_screen (screen s) \<and>
              (Rows (screen s) \<le> 2 \<or> int (length (Title quiz)) + 3 \<le> Columns (screen s))"
  proof
    fix e' assume e': "e' \<in> set rest"
    with Cons.prems(2) obtain a' s' where "snd e' = Some a'" and "sessions h a' = Some s'"
      and "wf_screen (screen s')"
      and "Rows (screen s') \<le> 2 \<or> int (length (Title quiz)) + 3 \<le> Columns (screen s')"
      by auto
    moreover from this(1) e' notin have "a' \<noteq> a" by force
    ultimately show "\<exists>a s. snd e' = Some a \<and> sessions ?h1 a = Some s \<and>
              wf_screen (screen s) \<and>
              (Rows (screen s) \<le> 2 \<or> int (length (Title quiz)) + 3 \<le> Columns (screen s))"
      by simp
  qed
  from Cons.IH [OF q1 pre1 d1]
  obtain h' where run: "Update_range spr rest (Some qa) ?h1 = Inr h'"
    and qh: "quizzes h' = quizzes ?h1"
    and other: "\<forall>b. Some b \<notin> snd ` set rest \<longrightarrow> sessions h' b = sessions ?h1 b"
    and each: "\<forall>e \<in> set rest. \<exists>a s scr frame. snd e = Some a \<and> sessions ?h1 a = Some s \<and>
               Compute spr (quizzes ?h1) (screen s) (Some qa) = Inr scr \<and> Render scr = Inr frame \<and>
               sessions h' a = Some (s\<lparr>channel :=
                            (if broken (channel s) then channel s
                             else (channel s)\<lparr>received :=
                                    received (channel s) @ [clearScreen @ frame @ hideCursor]\<rparr>),
                          screen := scr\<rparr>)"
    by blast
  have total: "Update_range spr (e # rest) (Some qa) h = Inr h'"
    using e sp step run by simp
  have quiz_same: "quizzes h' = quizzes h"
    using qh by simp
  have others: "\<forall>b. Some b \<notin> snd ` set (e # rest) \<longrightarrow> sessions h' b = sessions h b"
    using other e sp by auto
  have head: "sessions h' a = Some ?s1"
    using other notin by simp
  have all: "\<exists>a s scr frame. snd e' = Some a \<and> sessions h a = Some s \<and>
               Compute spr (quizzes h) (screen s) (Some qa) = Inr scr \<and> Render scr = Inr frame \<and>
               sessions h' a = Some (s\<lparr>channel :=
                            (if broken (channel s) then channel s
                             else (channel s)\<lparr>received :=
                                    received (channel s) @ [clearScreen @ frame @ hideCursor]\<rparr>),
                          screen := scr\<rparr>)"
    if "e' \<in> set (e # rest)" for e'
  proof (cases "e' = e")
    case True
    with e sp s c r head show ?thesis by auto
  next
    case False
    with that have e': "e' \<in> set rest" by simp
    with each obtain a' s' scr' frame' where a': "snd e' = Some a'"
      and s1: "sessions ?h1 a' = Some s'"
      and c': "Compute spr (quizzes ?h1) (screen s') (Some qa) = Inr scr'"
      and r': "Render scr' = Inr frame'"
      and d': "sessions h' a' = Some (s'\<lparr>channel :=
                            (if broken (channel s') then channel s'
                             else (channel s')\<lparr>received :=
                                    received (channel s') @ [clearScreen @ frame' @ hideCursor]\<rparr>),
                          screen := scr'\<rparr>)"
      by blast
    from a' e' notin have "a' \<noteq> a" by force
    with s1 have "sessions h a' = Some s'" by simp
    moreover from c' have "Compute spr (quizzes h) (screen s') (Some qa) = Inr scr'" by simp
    ultimately show ?thesis
      using a' r' d' by blast
  qed
  from total quiz_same others all show ?case by blast
qed

text \<open>
  Claim C4, amended. Take a server whose current quiz is set and whose registry holds
  distinct sessions, each with a well-formed screen that is at most two rows high or
  wide enough for the title. One tick of \<open>QuizzServer.Update\<close> returns; the server,
  and so its registry, is unchanged: a session whose sink fails every write is still
  registered. Every registered session has its screen composed, and every session whose
  sink accepts writes has received one more write, holding the clear-screen sequence,
  its frame and the hide-cursor sequence; a failing sink has received nothing.
\<close>

theorem QuizzServer_Update_failing_sink:
  assumes "currentQuizz q = Some qa" and "quizzes h qa = Some quiz"
    and "\<forall>e \<in> set (Sessions q). \<exists>a s. snd e = Some a \<and> sessions h a = Some s \<and>
              wf_screen (screen s) \<and>
              (Rows (screen s) \<le> 2 \<or> int (length (Title quiz)) + 3 \<le> Columns (screen s))"
    and "distinct (map snd (Sessions q))"
  shows "\<exists>h'. QuizzServer_Update spr q h = Inr (q, h') \<and> quizzes h' = quizzes h \<and>
           (\<forall>e \<in> set (Sessions q). \<exists>a s scr frame. snd e = Some a \<and> sessions h a = Some s \<and>
               Compute spr (quizzes h) (screen s) (currentQuizz q) = Inr scr \<and>
               Render scr = Inr frame \<and>
               sessions h' a = Some (s\<lparr>channel :=
                            (if broken (channel s) then channel s
                             else (channel s)\<lparr>received :=
                                    received (channel s) @ [clearScreen @ frame @ hideCursor]\<rparr>),
                          screen := scr\<rparr>))"
proof -
  from Update_range_result [OF assms(2,3,4), of spr]
  obtain h' where "Update_range spr (Sessions q) (Some qa) h = Inr h'"
    and "quizzes h' = quizzes h"
    and "\<forall>e \<in> set (Sessions q). \<exists>a s scr frame. snd e = Some a \<and> sessions h a = Some s \<and>
               Compute spr (quizzes h) (screen s) (Some qa) = Inr scr \<and> Render scr = Inr frame \<and>
               sessions h' a = Some (s\<lparr>channel :=
                            (if broken (channel s) then channel s
                             else (channel s)\<lparr>received :=
                                    received (channel s) @ [clearScreen @ frame @ hideCursor]\<rparr>),
                          screen := scr\<rparr>)"
    by blast
  with assms(1) show ?thesis
    by (simp add: QuizzServer_Update_def)
qed


lemma wf_used_screen: "wf_screen used_screen"
  by (simp add: used_screen_def wf_screen_def shape_def)

lemma Compute_used_screen:
  "Compute spr (quizzes two_players) used_screen (Some 0) = Inr used_screen"
  by (simp add: Compute_def DrawRect_def SetText_def used_screen_def deref_def two_players_def
      minus_one_def)

lemma Render_used_screen:
  "Render used_screen = Inr (''ab'' @ CRLF @ ''cd'' @ CRLF)"
  by code_simp

lemma two_players_sessions:
  "sessions two_players 0 = Some (player True ''a'')"
  "sessions two_players 1 = Some (player False ''b'')"
  "quizzes two_players 0 = Some title_quizz"
  "sessions two_players (Suc 0) = Some (player False ''b'')"
  by (simp_all add: two_players_def)

lemma player_fields:
  "screen (player b nm) = used_screen" "name (player b nm) = nm"
  "channel (player b nm) = \<lparr>broken = b, received = []\<rparr>"
  by (simp_all add: player_def sink_def)

lemma PlayerSession_Update_b:
  "PlayerSession_Update ansi (Some 1) (Some 0) two_players =
     Inr (two_players\<lparr>sessions := (sessions two_players)(1 \<mapsto>
            (player False ''b'')\<lparr>channel :=
               \<lparr>broken = False,
                received = [clearScreen @ (''ab'' @ CRLF @ ''cd'' @ CRLF) @ hideCursor]\<rparr>,
               screen := used_screen\<rparr>)\<rparr>)"
  by (simp add: PlayerSession_Update_def deref_def put_session_def io_Copy_def Channel_Write_def
      two_players_sessions player_fields Compute_used_screen Render_used_screen
      clearScreen_not_empty)

theorem PlayerSession_Update_frame_witness:
  "\<exists>h'. PlayerSession_Update ansi (Some 1) (Some 0) two_players = Inr h' \<and>
      quizzes h' = quizzes two_players \<and>
      sessions h' 0 = sessions two_players 0 \<and>
      (\<exists>s'. sessions h' 1 = Some s' \<and> name s' = ''b'' \<and>
         received (channel s') = [clearScreen @ (''ab'' @ CRLF @ ''cd'' @ CRLF) @ hideCursor])"
  using PlayerSession_Update_frame [OF PlayerSession_Update_b] PlayerSession_Update_b
  by (auto simp: two_players_sessions player_fields)

text \<open>
  Claim C3 says that a resize replaces the session's screen by a blank one of the new
  size and writes the session's frame to its sink at once. \<open>UpdateWindows\<close> replaces
  the screen, calls \<open>Render\<close> on it and drops the result, where \<open>PlayerSession.Update\<close>
  writes what \<open>Render\<close> returns: after resizing the second player, whose sink accepts
  writes, to 1 by 2, the only change is the blank screen, and the sink has still received
  nothing.
\<close>

theorem UpdateWindows_writes_nothing:
  "sessions two_players 1 = Some (player False ''b'') \<and>
   \<not> broken (channel (player False ''b'')) \<and>
   UpdateWindows maxAlloc48 (Some 1) 1 2 two_players =
     Inr (two_players\<lparr>sessions := (sessions two_players)(1 \<mapsto>
            (player False ''b'')\<lparr>screen :=
               \<lparr>Columns = 2, Rows = 1, Tiles = [[empty_tile, empty_tile]]\<rparr>\<rparr>)\<rparr>) \<and>
   received (channel ((player False ''b'')\<lparr>screen :=
               \<lparr>Columns = 2, Rows = 1, Tiles = [[empty_tile, empty_tile]]\<rparr>\<rparr>)) = []"
  using NewPlayerScreen_result [of 1 2 maxAlloc48] Render_blank [of 1 2]
  by (simp add: UpdateWindows_def deref_def put_session_def two_players_sessions player_fields
      numeral_2_eq_2 sizeof_slice_def sizeof_string_def maxAlloc48_def)

theorem QuizzServer_Update_failing_sink_witness:
  "currentQuizz two_player_server = Some 0 \<and> quizzes two_players 0 = Some title_quizz \<and>
   distinct (map snd (Sessions two_player_server)) \<and>
   (\<exists>h'. QuizzServer_Update ansi two_player_server two_players = Inr (two_player_server, h') \<and>
      (\<exists>s'. sessions h' 0 = Some s' \<and> broken (channel s') \<and> received (channel s') = []) \<and>
      (\<exists>s'. sessions h' 1 = Some s' \<and>
         received (channel s') = [clearScreen @ (''ab'' @ CRLF @ ''cd'' @ CRLF) @ hideCursor]))"
proof -
  have cq: "currentQuizz two_player_server = Some 0"
    and reg: "Sessions two_player_server = [(''a'', Some 0), (''b'', Some 1)]"
    by (simp_all add: two_player_server_def)
  have d: "distinct (map snd (Sessions two_player_server))"
    by (simp add: reg)
  have good: "\<forall>e \<in> set (Sessions two_player_server). \<exists>a s. snd e = Some a \<and>
      sessions two_players a = Some s \<and> wf_screen (screen s) \<and>
      (Rows (screen s) \<le> 2 \<or> int (length (Title title_quizz)) + 3 \<le> Columns (screen s))"
    using wf_used_screen
    by (simp add: reg two_players_sessions player_fields) (simp add: used_screen_def)
  from QuizzServer_Update_failing_sink [OF cq two_players_sessions(3) good d, of ansi]
  obtain h' where run: "QuizzServer_Update ansi two_player_server two_players = Inr (two_player_server, h')"
    and each: "\<forall>e \<in> set (Sessions two_player_server). \<exists>a s scr frame. snd e = Some a \<and>
               sessions two_players a = Some s \<and>
               Compute ansi (quizzes two_players) (screen s) (currentQuizz two_player_server) = Inr scr \<and>
               Render scr = Inr frame \<and>
               sessions h' a = Some (s\<lparr>channel :=
                            (if broken (channel s) then channel s
                             else (channel s)\<lparr>received :=
                                    received (channel s) @ [clearScreen @ frame @ hideCursor]\<rparr>),
                          screen := scr\<rparr>)"
    by blast
  from each have "\<exists>s'. sessions h' 0 = Some s' \<and> broken (channel s') \<and> received (channel s') = []"
    by (auto simp: reg cq two_players_sessions player_fields Compute_used_screen Render_used_screen)
  moreover from each have "\<exists>s'. sessions h' 1 = Some s' \<and>
         received (channel s') = [clearScreen @ (''ab'' @ CRLF @ ''cd'' @ CRLF) @ hideCursor]"
    by (auto simp: reg cq two_players_sessions player_fields Compute_used_screen Render_used_screen)
  ultimately show ?thesis
    using cq d run two_players_sessions(3) by blast
qed

text \<open>
  Claim C4, as stated, has the session with the failing sink removed from the registry
  after one tick. \<open>PlayerSession.Update\<close> drops the result of the write and nothing
  removes a session: after one tick over the two players, the first of which has a
  failing sink, the registry still maps the first player's name to its session.
\<close>

theorem QuizzServer_Update_keeps_failing_session:
  "sessions two_players 0 = Some (player True ''a'') \<and>
   broken (channel (player True ''a'')) \<and>
   map_of (Sessions two_player_server) ''a'' = Some (Some 0) \<and>
   map_sum id fst (QuizzServer_Update ansi two_player_server two_players) = Inr two_player_server"
  by (simp add: QuizzServer_Update_def two_player_server_def
      PlayerSession_Update_def deref_def put_session_def io_Copy_def Channel_Write_def
      two_players_sessions player_fields Compute_used_screen Render_used_screen
      clearScreen_not_empty)

end
